theory Spec2Isabelle
  imports Complex_Main "HOL-Library.Word"
begin

section \<open>The device driver's firmware-update code (ds5-device.cpp)\<close>

text \<open>
  A shallow embedding of the functions of \<^verbatim>\<open>src/ds5/ds5-device.cpp\<close> that talk to the
  camera's microcontroller: \<^verbatim>\<open>enter_update_state\<close>, \<^verbatim>\<open>backup_flash\<close>,
  \<^verbatim>\<open>update_flash_section\<close>, \<^verbatim>\<open>update_section\<close>, \<^verbatim>\<open>update_flash_internal\<close>,
  \<^verbatim>\<open>al3d_fw_update_start\<close>, \<^verbatim>\<open>update_flash\<close> and \<^verbatim>\<open>check_fw_compatibility\<close>.

  Every effect of the code is an event of a trace, in the order the code performs it:
  a command handed to the hardware monitor, a sleep, a call of the progress callback,
  a call of the alternate update object. The device is a script: the outcome of the
  \<open>n\<close>-th command sent, which is either the response bytes or a failure (the C++
  exception thrown by \<^verbatim>\<open>hw_monitor::send\<close>). A C++ exception that leaves a function is
  the \<open>Inl\<close> of its result. The power scope \<^verbatim>\<open>invoke_powered\<close> and the log lines of
  \<^verbatim>\<open>LOG_DEBUG\<close> and \<^verbatim>\<open>LOG_INFO\<close> leave no event.
\<close>

subsection \<open>Data\<close>

type_synonym byte = "8 word"

text \<open>The opcodes of \<^verbatim>\<open>ds::fw_cmd\<close> that this file sends.\<close>

datatype fw_cmd = DFU | FRB | FES | FWB | PFD | HWRST

text \<open>
  \<^verbatim>\<open>struct command\<close>: the opcode, the \<^verbatim>\<open>int\<close> parameters the code sets, the payload and
  the flag \<^verbatim>\<open>require_response\<close>.
\<close>

record command =
  cmd :: fw_cmd
  param1 :: int
  param2 :: int
  data :: "byte list"
  require_response :: bool

text \<open>The constructor \<^verbatim>\<open>command cmd(opcode)\<close> with its defaults.\<close>

definition command :: "fw_cmd \<Rightarrow> command" where
  "command c = \<lparr>cmd = c, param1 = 0, param2 = 0, data = [], require_response = True\<rparr>"

text \<open>A cast \<^verbatim>\<open>(int)\<close> of a \<^verbatim>\<open>size_t\<close>: the low 32 bits, read as two's complement.\<close>

definition int_cast :: "nat \<Rightarrow> int" where
  "int_cast n = sint (word_of_nat n :: 32 word)"

text \<open>
  The C \<^verbatim>\<open>float\<close> handed to the progress callback. Rounding is left out: a finite
  value is the exact rational, and \<open>NonFinite\<close> stands for the infinity or NaN that a
  float division by zero produces. The concrete runs evaluated below only meet
  zero, one and quotients of small integers by a power of two, which a binary float
  holds exactly.
\<close>

datatype fl = Fin rat | NonFinite

definition fdiv :: "rat \<Rightarrow> rat \<Rightarrow> fl" where
  "fdiv a b = (if b = 0 then NonFinite else Fin (a / b))"

fun fmul :: "fl \<Rightarrow> fl \<Rightarrow> fl" where
  "fmul (Fin a) (Fin b) = Fin (a * b)"
| "fmul _ _ = NonFinite"

fun fadd :: "fl \<Rightarrow> fl \<Rightarrow> fl" where
  "fadd (Fin a) (Fin b) = Fin (a + b)"
| "fadd _ _ = NonFinite"

text \<open>
  What leaves a function abnormally: the exceptions the code throws or lets through,
  and the undefined behaviour of \<^verbatim>\<open>front()\<close> on an empty vector.
\<close>

datatype error =
    Transport_error         \<comment> \<open>thrown by \<^verbatim>\<open>hw_monitor::send\<close>\<close>
  | Invalid_update_mode     \<comment> \<open>\<^verbatim>\<open>runtime_error("invalid update mode value")\<close>\<close>
  | Update_failed           \<comment> \<open>\<^verbatim>\<open>runtime_error("update failed, please try again")\<close>\<close>
  | Std_exception           \<comment> \<open>another exception derived from \<^verbatim>\<open>std::exception\<close>\<close>
  | Unknown_exception       \<comment> \<open>an exception that only \<^verbatim>\<open>catch (...)\<close> catches\<close>
  | Undefined_behaviour     \<comment> \<open>\<^verbatim>\<open>tables.front()\<close> of an empty table list\<close>

definition derives_from_std_exception :: "error \<Rightarrow> bool" where
  "derives_from_std_exception e = (e \<noteq> Unknown_exception)"

subsection \<open>Traces and the device\<close>

datatype event =
    Send command              \<comment> \<open>\<^verbatim>\<open>_hw_monitor->send(cmd)\<close>\<close>
  | Sleep_ms int              \<comment> \<open>\<^verbatim>\<open>this_thread::sleep_for(milliseconds(n))\<close>\<close>
  | Progress fl               \<comment> \<open>\<^verbatim>\<open>callback->on_update_progress(p)\<close>\<close>
  | Set_cmd "32 word" "32 word"  \<comment> \<open>\<^verbatim>\<open>al3d_fw_upgrade->set_cmd(rv)\<close>, with the fields p1 and p2\<close>
  | Get_cmd                   \<comment> \<open>\<^verbatim>\<open>al3d_fw_upgrade->get_cmd()\<close>\<close>
  | Set_data_512 "byte list"  \<comment> \<open>\<^verbatim>\<open>al3d_fw_upgrade->set_data_512(rv)\<close>\<close>
  | Stop_activity             \<comment> \<open>\<^verbatim>\<open>stop_activity()\<close>\<close>
  | Is_valid                  \<comment> \<open>\<^verbatim>\<open>is_valid()\<close>\<close>
  | Log_warning               \<comment> \<open>\<^verbatim>\<open>LOG_WARNING\<close>\<close>
  | Log_error                 \<comment> \<open>\<^verbatim>\<open>LOG_ERROR\<close>\<close>

text \<open>
  The state of a run: how many commands were sent to the hardware monitor, how many
  result records were read from the alternate update object, and the events so far.
\<close>

record run =
  sent :: nat
  polled :: nat
  trace :: "event list"

definition run0 :: run where
  "run0 = \<lparr>sent = 0, polled = 0, trace = []\<rparr>"

definition emit :: "event \<Rightarrow> run \<Rightarrow> run" where
  "emit e s = \<lparr>sent = sent s, polled = polled s, trace = trace s @ [e]\<rparr>"

text \<open>
  \<^verbatim>\<open>hw_monitor::send\<close>: the device's answer to the \<open>n\<close>-th command, \<open>None\<close> when the
  transport fails and \<^verbatim>\<open>send\<close> throws.
\<close>

type_synonym hw_monitor = "nat \<Rightarrow> command \<Rightarrow> byte list option"

definition send :: "hw_monitor \<Rightarrow> command \<Rightarrow> run \<Rightarrow> (error + byte list) \<times> run" where
  "send hwm c s =
     (case hwm (sent s) c of
        None \<Rightarrow>
          (Inl Transport_error,
           \<lparr>sent = sent s + 1, polled = polled s, trace = trace s @ [Send c]\<rparr>)
      | Some res \<Rightarrow>
          (Inr res, \<lparr>sent = sent s + 1, polled = polled s, trace = trace s @ [Send c]\<rparr>))"

text \<open>\<^verbatim>\<open>if (callback) callback->on_update_progress(p)\<close>: the callback may be null.\<close>

definition on_update_progress :: "bool \<Rightarrow> fl \<Rightarrow> run \<Rightarrow> run" where
  "on_update_progress callback p s = (if callback then emit (Progress p) s else s)"

text \<open>Projections of a trace: the progress values, the commands sent, the data blocks.\<close>

definition progress_of :: "event list \<Rightarrow> fl list" where
  "progress_of tr = concat (map (\<lambda>e. case e of Progress p \<Rightarrow> [p] | _ \<Rightarrow> []) tr)"

definition sends_of :: "event list \<Rightarrow> command list" where
  "sends_of tr = concat (map (\<lambda>e. case e of Send c \<Rightarrow> [c] | _ \<Rightarrow> []) tr)"

definition blocks_of :: "event list \<Rightarrow> byte list list" where
  "blocks_of tr = concat (map (\<lambda>e. case e of Set_data_512 rv \<Rightarrow> [rv] | _ \<Rightarrow> []) tr)"

subsection \<open>enter\_update\_state\<close>

text \<open>
  The loop \<^verbatim>\<open>for (i = 0; i < MAX_ITERATIONS_FOR_DEVICE_DISCONNECTED_LOOP; i++)\<close>. The
  \<open>i\<close>-th call of \<^verbatim>\<open>is_valid()\<close> returns a boolean or throws. The result \<open>Inr True\<close> is
  the \<^verbatim>\<open>return\<close> inside the loop, \<open>Inr False\<close> is the loop running out.
\<close>

function disconnect_loop ::
  "nat \<Rightarrow> nat \<Rightarrow> (nat \<Rightarrow> error + bool) \<Rightarrow> nat \<Rightarrow> run \<Rightarrow> (error + bool) \<times> run" where
  "disconnect_loop MAX_ITERATIONS DELAY_FOR_RETRIES is_valid i s =
     (if i < MAX_ITERATIONS then
        (case is_valid i of
           Inl e \<Rightarrow> (Inl e, emit Is_valid s)
         | Inr valid \<Rightarrow>
             if \<not> valid then (Inr True, emit Is_valid s)
             else disconnect_loop MAX_ITERATIONS DELAY_FOR_RETRIES is_valid (i + 1)
                    (emit (Sleep_ms (int DELAY_FOR_RETRIES)) (emit Is_valid s)))
      else (Inr False, s))"
  by pat_completeness auto
termination
  by (relation "measure (\<lambda>(MAX_ITERATIONS, DELAY_FOR_RETRIES, is_valid, i, s).
                            MAX_ITERATIONS - i)") auto

declare disconnect_loop.simps [simp del]

text \<open>
  Modelled from the spec: \<^verbatim>\<open>stop_activity()\<close>, a member of the device class that is
  defined outside this file. The spec has it stop all data exchange with the device,
  synchronously, before the function proceeds, and gives it no failure: the model is a
  step that returns.
\<close>

definition stop_activity :: "run \<Rightarrow> run" where
  "stop_activity s = emit Stop_activity s"

text \<open>
  \<^verbatim>\<open>enter_update_state\<close>. The macros \<^verbatim>\<open>POLLING_DEVICES_INTERVAL_MS\<close> and
  \<^verbatim>\<open>DELAY_FOR_RETRIES\<close> are defined outside this file and are parameters, as is the
  value of \<^verbatim>\<open>device_changed_notifications_on()\<close>. The call of \<^verbatim>\<open>stop_activity()\<close>
  stands before the \<^verbatim>\<open>try\<close> block; the two handlers catch everything thrown inside
  it, log it and let the function return.
\<close>

definition enter_update_state ::
  "nat \<Rightarrow> nat \<Rightarrow> hw_monitor \<Rightarrow> (nat \<Rightarrow> error + bool) \<Rightarrow> bool \<Rightarrow> run \<Rightarrow> (error + unit) \<times> run" where
  "enter_update_state POLLING_DEVICES_INTERVAL_MS DELAY_FOR_RETRIES hwm is_valid
       device_changed_notifications_on s =
     (case (case send hwm ((command DFU)\<lparr>param1 := 1\<rparr>) (stop_activity s) of
              (Inl e, s1) \<Rightarrow> (Inl e, s1)
            | (Inr res, s1) \<Rightarrow>
                (case disconnect_loop
                        ((POLLING_DEVICES_INTERVAL_MS + 1000) div DELAY_FOR_RETRIES)
                        DELAY_FOR_RETRIES is_valid 0 s1 of
                   (Inl e, s2) \<Rightarrow> (Inl e, s2)
                 | (Inr returned, s2) \<Rightarrow>
                     if returned then (Inr (), s2)
                     else if device_changed_notifications_on
                     then (Inr (), emit Log_warning s2)
                     else (Inr (), s2))) of
        (Inl e, s3) \<Rightarrow>
          if derives_from_std_exception e then (Inr (), emit Log_warning s3)
          else (Inr (), emit Log_error s3)
      | (Inr u, s3) \<Rightarrow> (Inr (), s3))"

subsection \<open>backup\_flash\<close>

definition flash_size :: int where "flash_size = 1024 * 2048"
definition max_bulk_size :: int where "max_bulk_size = 1016"
definition max_iterations :: int where "max_iterations = flash_size div max_bulk_size + 1"
definition retries :: int where "retries = 3"

text \<open>
  The retry loop \<^verbatim>\<open>for (j = 0; j < retries && !appended; j++)\<close> of chunk \<open>i\<close>. The
  handler tests \<^verbatim>\<open>i < retries - 1\<close>, with the chunk index \<open>i\<close>, as the source does.
  The result is the flash read so far.
\<close>

function backup_chunk ::
  "hw_monitor \<Rightarrow> int \<Rightarrow> int \<Rightarrow> int \<Rightarrow> int \<Rightarrow> bool \<Rightarrow> byte list \<Rightarrow> run
     \<Rightarrow> (error + byte list) \<times> run" where
  "backup_chunk hwm i offset sz j appended flash s =
     (if j < retries \<and> \<not> appended then
        (case send hwm ((command FRB)\<lparr>param1 := offset, param2 := sz\<rparr>) s of
           (Inr res, s') \<Rightarrow> backup_chunk hwm i offset sz (j + 1) True (flash @ res) s'
         | (Inl e, s') \<Rightarrow>
             if i < retries - 1
             then backup_chunk hwm i offset sz (j + 1) appended flash (emit (Sleep_ms 100) s')
             else (Inl e, s'))
      else (Inr flash, s))"
  by pat_completeness auto
termination
  by (relation "measure (\<lambda>(hwm, i, offset, sz, j, appended, flash, s). nat (retries - j))") auto

declare backup_chunk.simps [simp del]

text \<open>The loop \<^verbatim>\<open>for (i = 0; i < max_iterations; i++)\<close> over the chunks.\<close>

function backup_loop ::
  "hw_monitor \<Rightarrow> bool \<Rightarrow> int \<Rightarrow> byte list \<Rightarrow> run \<Rightarrow> (error + byte list) \<times> run" where
  "backup_loop hwm callback i flash s =
     (if i < max_iterations then
        (case backup_chunk hwm i (max_bulk_size * i)
                (if i = max_iterations - 1 then flash_size - max_bulk_size * i else max_bulk_size)
                0 False flash s of
           (Inl e, s') \<Rightarrow> (Inl e, s')
         | (Inr flash', s') \<Rightarrow>
             backup_loop hwm callback (i + 1) flash'
               (on_update_progress callback (fdiv (of_int i) (of_int max_iterations)) s'))
      else (Inr flash, s))"
  by pat_completeness auto
termination
  by (relation "measure (\<lambda>(hwm, callback, i, flash, s). nat (max_iterations - i))") auto

declare backup_loop.simps [simp del]

definition backup_flash :: "hw_monitor \<Rightarrow> bool \<Rightarrow> run \<Rightarrow> (error + byte list) \<times> run" where
  "backup_flash hwm callback s =
     (case backup_loop hwm callback 0 [] s of
        (Inl e, s') \<Rightarrow> (Inl e, s')
      | (Inr flash, s') \<Rightarrow> (Inr flash, on_update_progress callback (Fin 1) s'))"

subsection \<open>update\_flash\_section\<close>

text \<open>
  \<open>Z\<close> is \<^verbatim>\<open>ds::FLASH_SECTOR_SIZE\<close> and \<open>H\<close> is \<^verbatim>\<open>HW_MONITOR_COMMAND_SIZE\<close>, two
  positive constants defined outside this file. The inner loop
  \<^verbatim>\<open>for (int i = 0; i < Z; )\<close> writes one sector in packets; \<open>limit\<close> is the 32-bit sum
  \<^verbatim>\<open>offset + size\<close>. The payload is the slice of the image from \<open>index\<close>, of
  \<open>packet_size\<close> bytes. (The test \<open>0 < H\<close> only makes the recursion total: the code
  divides by \<open>H\<close>.)
\<close>

function write_packets ::
  "nat \<Rightarrow> nat \<Rightarrow> hw_monitor \<Rightarrow> byte list \<Rightarrow> nat \<Rightarrow> nat \<Rightarrow> nat \<Rightarrow> run
     \<Rightarrow> (error + unit) \<times> run" where
  "write_packets Z H hwm img sector_index limit i s =
     (if i < Z \<and> 0 < H then
        (if limit \<le> sector_index * Z + i then (Inr (), s)
         else
           (case send hwm
                   ((command FWB)\<lparr>require_response := False,
                      param1 := int_cast (sector_index * Z + i),
                      param2 := int (min (H - i mod H) (Z - i)),
                      data := take (min (H - i mod H) (Z - i)) (drop (sector_index * Z + i) img)\<rparr>) s of
              (Inl e, s') \<Rightarrow> (Inl e, s')
            | (Inr res, s') \<Rightarrow>
                write_packets Z H hwm img sector_index limit (i + min (H - i mod H) (Z - i)) s'))
      else (Inr (), s))"
  by pat_completeness auto
termination
proof (relation "measure (\<lambda>(Z, H, hwm, img, sector_index, limit, i, s). Z - i)")
  fix Z H :: nat and hwm :: hw_monitor and img :: "byte list" and sector_index limit i :: nat
    and s y :: run
  assume "i < Z \<and> 0 < H"
  moreover from this have "i mod H < H" by simp
  ultimately have "Z - (i + min (H - i mod H) (Z - i)) < Z - i" by (cases "H - i mod H \<le> Z - i") linarith+
  then show "((Z, H, hwm, img, sector_index, limit, i + min (H - i mod H) (Z - i), y),
              (Z, H, hwm, img, sector_index, limit, i, s))
             \<in> measure (\<lambda>(Z, H, hwm, img, sector_index, limit, i, s). Z - i)"
    by simp
qed simp

declare write_packets.simps [simp del]

text \<open>The loop \<^verbatim>\<open>for (sector_index = first_sector; sector_index < sector_count; ...)\<close>.\<close>

function sector_loop ::
  "nat \<Rightarrow> nat \<Rightarrow> hw_monitor \<Rightarrow> byte list \<Rightarrow> nat \<Rightarrow> bool \<Rightarrow> fl \<Rightarrow> fl \<Rightarrow> nat \<Rightarrow> nat \<Rightarrow> run
     \<Rightarrow> (error + unit) \<times> run" where
  "sector_loop Z H hwm img limit callback continue_from ratio sector_count sector_index s =
     (if sector_index < sector_count then
        (case send hwm ((command FES)\<lparr>require_response := False,
                          param1 := int_cast sector_index, param2 := 1\<rparr>) s of
           (Inl e, s') \<Rightarrow> (Inl e, s')
         | (Inr res, s') \<Rightarrow>
             (case write_packets Z H hwm img sector_index limit 0 s' of
                (Inl e, s'') \<Rightarrow> (Inl e, s'')
              | (Inr u, s'') \<Rightarrow>
                  sector_loop Z H hwm img limit callback continue_from ratio sector_count
                    (sector_index + 1)
                    (on_update_progress callback
                       (fadd continue_from
                          (fmul (fdiv (of_nat sector_index) (of_nat sector_count)) ratio)) s'')))
      else (Inr (), s))"
  by pat_completeness auto
termination
  by (relation "measure (\<lambda>(Z, H, hwm, img, limit, callback, continue_from, ratio,
                             sector_count, sector_index, s). sector_count - sector_index)") auto

declare sector_loop.simps [simp del]

definition update_flash_section ::
  "nat \<Rightarrow> nat \<Rightarrow> hw_monitor \<Rightarrow> byte list \<Rightarrow> 32 word \<Rightarrow> 32 word \<Rightarrow> bool \<Rightarrow> fl \<Rightarrow> fl \<Rightarrow> run
     \<Rightarrow> (error + unit) \<times> run" where
  "update_flash_section Z H hwm img offset sz callback continue_from ratio s =
     (let sector_count = unat sz div Z;
          first_sector = unat offset div Z;
          sector_count = (if sector_count * Z \<noteq> unat sz then sector_count + 1 else sector_count);
          sector_count = sector_count + first_sector
      in sector_loop Z H hwm img (unat (offset + sz)) callback continue_from ratio
           sector_count first_sector s)"

subsection \<open>update\_section and update\_flash\_internal\<close>

text \<open>
  The fields of \<^verbatim>\<open>flash_table\<close>, \<^verbatim>\<open>flash_section\<close>, \<^verbatim>\<open>flash_info_header\<close> and
  \<^verbatim>\<open>flash_info\<close> that the code reads (the fields \<^verbatim>\<open>offset\<close> are named
  \<open>table_offset\<close> and \<open>section_offset\<close> here).
\<close>

record flash_table =
  table_offset :: "32 word"
  table_size :: "32 word"

record flash_section =
  section_offset :: "32 word"
  app_size :: "32 word"
  tables :: "flash_table list"

record flash_info_header =
  read_write_start_address :: "32 word"
  read_write_size :: "32 word"
  read_only_start_address :: "32 word"
  read_only_size :: "32 word"

record flash_info =
  header :: flash_info_header
  read_write_section :: flash_section
  read_only_section :: flash_section

definition update_section ::
  "nat \<Rightarrow> nat \<Rightarrow> hw_monitor \<Rightarrow> byte list \<Rightarrow> flash_section \<Rightarrow> 32 word \<Rightarrow> bool \<Rightarrow> fl \<Rightarrow> fl \<Rightarrow> run
     \<Rightarrow> (error + unit) \<times> run" where
  "update_section Z H hwm merged_image fs tables_size callback continue_from ratio s =
     (case tables fs of
        [] \<Rightarrow> (Inl Undefined_behaviour, s)
      | t # ts \<Rightarrow>
          (let first_table_offset = table_offset t;
               total_size = of_nat (unat (app_size fs + tables_size));
               app_ratio = fmul (fdiv (of_nat (unat (app_size fs))) total_size) ratio;
               tables_ratio = fmul (fdiv (of_nat (unat tables_size)) total_size) ratio
           in case update_flash_section Z H hwm merged_image (section_offset fs) (app_size fs)
                     callback continue_from app_ratio s of
                (Inl e, s') \<Rightarrow> (Inl e, s')
              | (Inr u, s') \<Rightarrow>
                  update_flash_section Z H hwm merged_image first_table_offset tables_size
                    callback app_ratio tables_ratio s'))"

text \<open>
  The argument \<^verbatim>\<open>int update_mode\<close>: one of the four enumerators the code names, or any
  other value.
\<close>

datatype update_mode =
    RS2_UNSIGNED_UPDATE_MODE_UPDATE
  | RS2_UNSIGNED_UPDATE_MODE_READ_ONLY
  | RS2_UNSIGNED_UPDATE_MODE_FULL
  | AL3D_UNSIGNED_UPDATE_MODE_FULL
  | Unrecognized int

text \<open>
  \<^verbatim>\<open>ds::get_flash_info\<close> and \<^verbatim>\<open>merge_images\<close> are defined outside this file and are
  parameters: any two functions.
\<close>

definition update_flash_internal ::
  "nat \<Rightarrow> nat \<Rightarrow> (byte list \<Rightarrow> flash_info) \<Rightarrow> (flash_info \<Rightarrow> flash_info \<Rightarrow> byte list \<Rightarrow> byte list)
     \<Rightarrow> hw_monitor \<Rightarrow> byte list \<Rightarrow> byte list \<Rightarrow> bool \<Rightarrow> update_mode \<Rightarrow> run
     \<Rightarrow> (error + unit) \<times> run" where
  "update_flash_internal Z H get_flash_info merge_images hwm img flash_backup callback mode s =
     (let flash_image_info = get_flash_info img;
          flash_backup_info = get_flash_info flash_backup;
          merged_image = merge_images flash_backup_info flash_image_info img
      in case tables (read_write_section flash_image_info) of
           [] \<Rightarrow> (Inl Undefined_behaviour, s)
         | t # ts \<Rightarrow>
            (case update_section Z H hwm merged_image (read_write_section flash_image_info)
                    (read_write_start_address (header flash_image_info)
                       + read_write_size (header flash_image_info) - table_offset t)
                    callback (Fin 0)
                    (if mode = RS2_UNSIGNED_UPDATE_MODE_READ_ONLY then Fin (1/2) else Fin 1) s of
               (Inl e, s') \<Rightarrow> (Inl e, s')
             | (Inr u, s') \<Rightarrow>
                 if mode = RS2_UNSIGNED_UPDATE_MODE_READ_ONLY then
                   (case tables (read_only_section flash_image_info) of
                      [] \<Rightarrow> (Inl Undefined_behaviour, s')
                    | t' # ts' \<Rightarrow>
                        update_section Z H hwm merged_image (read_only_section flash_image_info)
                          (read_only_start_address (header flash_image_info)
                             + read_only_size (header flash_image_info) - table_offset t')
                          callback (Fin (1/2)) (Fin (1/2)) s')
                 else (Inr (), s')))"

subsection \<open>al3d\_fw\_update\_start\<close>

text \<open>
  The result record \<^verbatim>\<open>al3d_fw_update_result\<close> with its byte array \<^verbatim>\<open>p1\<close>, and the
  update object as a script: the record that the \<open>n\<close>-th \<^verbatim>\<open>get_cmd()\<close> returns.
\<close>

record al3d_fw_update_result =
  p1 :: "nat \<Rightarrow> byte"

type_synonym al3d_fw_update = "nat \<Rightarrow> al3d_fw_update_result"

text \<open>
  Modelled from the spec: \<^verbatim>\<open>al3d_fw_update::set_cmd\<close>, of a class that is defined
  outside this file. The spec has it send a fixed-format command and gives it no
  failure: a step that returns. A command record is kept as its two fields \<^verbatim>\<open>p1\<close>
  and \<^verbatim>\<open>p2\<close>, the low four bytes of the two 64-bit values that the code copies into
  them.
\<close>

definition set_cmd :: "32 word \<Rightarrow> 32 word \<Rightarrow> run \<Rightarrow> run" where
  "set_cmd a b s = emit (Set_cmd a b) s"

text \<open>
  Modelled from the spec: \<^verbatim>\<open>al3d_fw_update::get_cmd\<close>, which reads back a fixed-size
  result record: a step that returns the next record of the script.
\<close>

definition get_cmd :: "al3d_fw_update \<Rightarrow> run \<Rightarrow> al3d_fw_update_result \<times> run" where
  "get_cmd al3d s =
     (al3d (polled s), \<lparr>sent = sent s, polled = polled s + 1, trace = trace s @ [Get_cmd]\<rparr>)"

text \<open>
  Modelled from the spec: \<^verbatim>\<open>al3d_fw_update::set_data_512\<close>, which sends one block of raw
  bytes: a step that returns (the code ignores its return value).
\<close>

definition set_data_512 :: "byte list \<Rightarrow> run \<Rightarrow> run" where
  "set_data_512 rv s = emit (Set_data_512 rv) s"

definition transfer_size :: nat where "transfer_size = 512"
definition max_loop :: nat where "max_loop = 60 * 10"

text \<open>
  Step 3, \<^verbatim>\<open>while (remaining_bytes > 0)\<close>. The first branch ends with \<^verbatim>\<open>break\<close>, before
  the counter and the callback. \<^verbatim>\<open>block_number\<close> and \<^verbatim>\<open>blocks_count\<close> are
  \<^verbatim>\<open>uint16_t\<close>.
\<close>

function block_loop ::
  "byte list \<Rightarrow> bool \<Rightarrow> 16 word \<Rightarrow> nat \<Rightarrow> nat \<Rightarrow> 16 word \<Rightarrow> run \<Rightarrow> run" where
  "block_loop img callback blocks_count remaining_bytes offset block_number s =
     (if 0 < remaining_bytes then
        (if remaining_bytes < transfer_size then
           set_data_512 (take remaining_bytes (drop offset img)
                           @ replicate (transfer_size - remaining_bytes) 0) s
         else
           block_loop img callback blocks_count
             (remaining_bytes - transfer_size) (offset + transfer_size) (block_number + 1)
             (on_update_progress callback
                (fdiv (of_nat (unat (block_number + 1))) (of_nat (unat blocks_count)))
                (set_data_512 (take transfer_size (drop offset img)) s)))
      else s)"
  by pat_completeness auto
termination
  by (relation "measure (\<lambda>(img, callback, blocks_count, remaining_bytes, offset, block_number, s).
                            remaining_bytes)") (auto simp: transfer_size_def)

declare block_loop.simps [simp del]

text \<open>Step 5, \<^verbatim>\<open>for (i = 0; i < max_loop; i++)\<close>.\<close>

function poll_loop :: "al3d_fw_update \<Rightarrow> nat \<Rightarrow> run \<Rightarrow> (error + unit) \<times> run" where
  "poll_loop al3d i s =
     (if i < max_loop then
        (case get_cmd al3d (emit (Sleep_ms 1000) s) of
           (result, s') \<Rightarrow>
             if p1 result 0 = 0 \<and> p1 result 1 = 0 \<and> p1 result 2 = 0 \<and> p1 result 3 = 0
             then (Inr (), s')
             else if p1 result 0 = 0x80 \<or> p1 result 0 = 0x82
             then (Inl Update_failed, s')
             else poll_loop al3d (i + 1) s')
      else (Inr (), s))"
  by pat_completeness auto
termination
  by (relation "measure (\<lambda>(al3d, i, s). max_loop - i)") auto

declare poll_loop.simps [simp del]

definition al3d_fw_update_start ::
  "al3d_fw_update \<Rightarrow> byte list \<Rightarrow> bool \<Rightarrow> update_mode \<Rightarrow> run \<Rightarrow> (error + unit) \<times> run" where
  "al3d_fw_update_start al3d img callback mode s =
     (case mode of
        AL3D_UNSIGNED_UPDATE_MODE_FULL \<Rightarrow>
          (let fw_size = length img;
               blocks_count = (word_of_nat (fw_size div transfer_size) :: 16 word);
               p2 = (fw_size div transfer_size) * transfer_size;
               p2 = (if 0 < fw_size mod transfer_size then p2 + transfer_size else p2);
               s1 = set_cmd 0x00030001 (word_of_nat p2) s;
               s2 = snd (get_cmd al3d s1);
               s3 = block_loop img callback blocks_count fw_size 0 0 s2;
               s4 = set_cmd 0x00030101 (word_of_nat p2) s3
           in case poll_loop al3d 0 s4 of
                (Inl e, s5) \<Rightarrow> (Inl e, s5)
              | (Inr u, s5) \<Rightarrow>
                  (Inr (),
                   on_update_progress callback (Fin 1)
                     (on_update_progress callback
                        (fdiv (of_nat (unat blocks_count)) (of_nat (unat blocks_count))) s5)))
      | _ \<Rightarrow> (Inl Invalid_update_mode, s))"

subsection \<open>update\_flash\<close>

text \<open>
  \<^verbatim>\<open>ds::FLASH_SIZE\<close> is a parameter too. The code has no handler: an exception of any
  step leaves the function at that step.
\<close>

text \<open>The \<^verbatim>\<open>switch (update_mode)\<close> statement of \<^verbatim>\<open>update_flash\<close>.\<close>

definition update_mode_switch ::
  "nat \<Rightarrow> nat \<Rightarrow> 32 word \<Rightarrow> (byte list \<Rightarrow> flash_info)
     \<Rightarrow> (flash_info \<Rightarrow> flash_info \<Rightarrow> byte list \<Rightarrow> byte list)
     \<Rightarrow> hw_monitor \<Rightarrow> al3d_fw_update \<Rightarrow> byte list \<Rightarrow> bool \<Rightarrow> update_mode \<Rightarrow> run
     \<Rightarrow> (error + unit) \<times> run" where
  "update_mode_switch Z H FLASH_SIZE get_flash_info merge_images hwm al3d img callback mode s =
     (case mode of
        RS2_UNSIGNED_UPDATE_MODE_FULL \<Rightarrow>
          update_flash_section Z H hwm img 0 FLASH_SIZE callback (Fin 0) (Fin 1) s
      | RS2_UNSIGNED_UPDATE_MODE_UPDATE \<Rightarrow>
          (case backup_flash hwm False s of
             (Inl e, s') \<Rightarrow> (Inl e, s')
           | (Inr flash_backup, s') \<Rightarrow>
               update_flash_internal Z H get_flash_info merge_images hwm img
                 flash_backup callback mode s')
      | RS2_UNSIGNED_UPDATE_MODE_READ_ONLY \<Rightarrow>
          (case backup_flash hwm False s of
             (Inl e, s') \<Rightarrow> (Inl e, s')
           | (Inr flash_backup, s') \<Rightarrow>
               update_flash_internal Z H get_flash_info merge_images hwm img
                 flash_backup callback mode s')
      | AL3D_UNSIGNED_UPDATE_MODE_FULL \<Rightarrow> al3d_fw_update_start al3d img callback mode s
      | Unrecognized m \<Rightarrow> (Inl Invalid_update_mode, s))"

text \<open>
  \<^verbatim>\<open>update_flash\<close>: the command \<^verbatim>\<open>PFD\<close>, the switch, the callback with 1.0, the
  command \<^verbatim>\<open>HWRST\<close>.
\<close>

definition update_flash ::
  "nat \<Rightarrow> nat \<Rightarrow> 32 word \<Rightarrow> (byte list \<Rightarrow> flash_info)
     \<Rightarrow> (flash_info \<Rightarrow> flash_info \<Rightarrow> byte list \<Rightarrow> byte list)
     \<Rightarrow> hw_monitor \<Rightarrow> al3d_fw_update \<Rightarrow> byte list \<Rightarrow> bool \<Rightarrow> update_mode \<Rightarrow> run
     \<Rightarrow> (error + unit) \<times> run" where
  "update_flash Z H FLASH_SIZE get_flash_info merge_images hwm al3d img callback mode s =
     (case send hwm ((command PFD)\<lparr>require_response := False\<rparr>) s of
        (Inl e, s1) \<Rightarrow> (Inl e, s1)
      | (Inr res, s1) \<Rightarrow>
          (case update_mode_switch Z H FLASH_SIZE get_flash_info merge_images hwm al3d img
                  callback mode s1 of
             (Inl e, s3) \<Rightarrow> (Inl e, s3)
           | (Inr u, s3) \<Rightarrow>
               (case send hwm (command HWRST) (on_update_progress callback (Fin 1) s3) of
                  (Inl e, s4) \<Rightarrow> (Inl e, s4)
                | (Inr res', s4) \<Rightarrow> (Inr (), s4))))"

subsection \<open>check\_fw\_compatibility\<close>

text \<open>
  The version check is compiled out (\<^verbatim>\<open>#if 0\<close>); what is compiled is \<^verbatim>\<open>return 1;\<close>.
  The arguments are the device's product id (the member \<^verbatim>\<open>_pid\<close>) and the image.
\<close>

definition check_fw_compatibility :: "nat \<Rightarrow> byte list \<Rightarrow> bool" where
  "check_fw_compatibility pid img = True"

section \<open>Notions used in the statements\<close>

subsection \<open>Commands\<close>

text \<open>
  The two commands that the code builds without an argument of its own, the command
  of chunk \<open>i\<close> of the backup, and the opcode and the two parameters of a command.
\<close>

definition pfd_cmd :: command where
  "pfd_cmd = (command PFD)\<lparr>require_response := False\<rparr>"

definition dfu_cmd :: command where
  "dfu_cmd = (command DFU)\<lparr>param1 := 1\<rparr>"

definition read_cmd :: "int \<Rightarrow> command" where
  "read_cmd i =
     (command FRB)\<lparr>param1 := max_bulk_size * i,
                    param2 := (if i = max_iterations - 1 then flash_size - max_bulk_size * i
                               else max_bulk_size)\<rparr>"

definition summary :: "command \<Rightarrow> fw_cmd \<times> int \<times> int" where
  "summary c = (cmd c, param1 c, param2 c)"

subsection \<open>Events of the loops\<close>

text \<open>
  The events of a backup chunk read at the first attempt; the state after \<open>k\<close>
  iterations of the completion poll loop, each a sleep of one second and one
  \<^verbatim>\<open>get_cmd()\<close>, and the two tests of that loop; the state after \<open>k\<close> polls of the
  disconnect loop that found the device present.
\<close>

definition chunk_events :: "bool \<Rightarrow> int \<Rightarrow> event list" where
  "chunk_events callback i =
     Send (read_cmd i)
       # (if callback then [Progress (fdiv (of_int i) (of_int max_iterations))] else [])"

definition completed :: "al3d_fw_update_result \<Rightarrow> bool" where
  "completed r = (p1 r 0 = 0 \<and> p1 r 1 = 0 \<and> p1 r 2 = 0 \<and> p1 r 3 = 0)"

definition fault :: "al3d_fw_update_result \<Rightarrow> bool" where
  "fault r = (p1 r 0 = 0x80 \<or> p1 r 0 = 0x82)"

definition polls :: "nat \<Rightarrow> run \<Rightarrow> run" where
  "polls k s = \<lparr>sent = sent s, polled = polled s + k,
                  trace = trace s @ concat (replicate k [Sleep_ms 1000, Get_cmd])\<rparr>"

definition waits :: "nat \<Rightarrow> nat \<Rightarrow> run \<Rightarrow> run" where
  "waits D k s = \<lparr>sent = sent s, polled = polled s,
                    trace = trace s @ concat (replicate k [Is_valid, Sleep_ms (int D)])\<rparr>"

text \<open>
  The events of the block loop of the alternate engine: of the \<open>k\<close>-th full block, of
  the padded last block, of the whole loop; and the blocks of an image, the last one
  padded with zeros.
\<close>

definition full_block_events :: "bool \<Rightarrow> 16 word \<Rightarrow> byte list \<Rightarrow> nat \<Rightarrow> event list" where
  "full_block_events callback blocks_count img k =
     Set_data_512 (take 512 (drop (512 * k) img))
       # (if callback
          then [Progress (fdiv (of_nat (unat (word_of_nat (k + 1) :: 16 word)))
                               (of_nat (unat blocks_count)))]
          else [])"

definition last_block_events :: "byte list \<Rightarrow> event list" where
  "last_block_events img =
     (if 0 < length img mod 512
      then [Set_data_512 (drop (512 * (length img div 512)) img
                            @ replicate (512 - length img mod 512) 0)]
      else [])"

definition block_events :: "bool \<Rightarrow> 16 word \<Rightarrow> byte list \<Rightarrow> event list" where
  "block_events callback blocks_count img =
     concat (map (full_block_events callback blocks_count img) [0..<length img div 512])
       @ last_block_events img"

definition padded_blocks :: "byte list \<Rightarrow> byte list list" where
  "padded_blocks img =
     map (\<lambda>k. take 512 (drop (512 * k) img)) [0..<length img div 512]
       @ (if 0 < length img mod 512
          then [drop (512 * (length img div 512)) img @ replicate (512 - length img mod 512) 0]
          else [])"

text \<open>How often a trace holds the reset command.\<close>

definition resets :: "event list \<Rightarrow> nat" where
  "resets tr = count_list tr (Send (command HWRST))"

subsection \<open>Sample inputs\<close>

text \<open>
  Devices: one that answers every command with an empty response, one that answers
  none, one whose second answer fails, one whose third answer fails, one whose first
  three answers fail and which then answers a read with as many bytes as asked for.
\<close>

definition ok_device :: hw_monitor where
  "ok_device n c = Some []"

definition dead_device :: hw_monitor where
  "dead_device n c = None"

definition fail_at_1 :: hw_monitor where
  "fail_at_1 n c = (if n = 1 then None else Some [])"

definition fail_at_2 :: hw_monitor where
  "fail_at_2 n c = (if n = 2 then None else Some [])"

definition fail_first_3 :: hw_monitor where
  "fail_first_3 n c = (if n < 3 then None else Some (replicate (nat (param2 c)) 255))"

text \<open>
  Result records of the alternate engine (complete, busy, burn-image error), and an
  update object that reports completion at once.
\<close>

definition done_result :: al3d_fw_update_result where "done_result = \<lparr>p1 = (\<lambda>k. 0)\<rparr>"

definition busy_result :: al3d_fw_update_result where "busy_result = \<lparr>p1 = (\<lambda>k. 1)\<rparr>"

definition fault_result :: al3d_fw_update_result where "fault_result = \<lparr>p1 = (\<lambda>k. if k = 0 then 0x82 else 0)\<rparr>"

definition idle_al3d :: al3d_fw_update where
  "idle_al3d n = done_result"

text \<open>A presence predicate that holds at the polls 0 and 1 and fails from poll 2 on.\<close>

definition valid_twice :: "nat \<Rightarrow> error + bool" where
  "valid_twice j = Inr (j < 2)"

text \<open>
  A flash layout in sectors of 4096 bytes: the read-write section has its application
  in sector 0 and its tables in sector 1, the read-only section has its application in
  sector 3 and its tables in sector 7. A parser that finds this layout in every image,
  and a merge that keeps the new image.
\<close>

definition sample_flash_info :: flash_info where
  "sample_flash_info =
     \<lparr>header = \<lparr>read_write_start_address = 0, read_write_size = 8192,
                 read_only_start_address = 12288, read_only_size = 20480\<rparr>,
      read_write_section = \<lparr>section_offset = 0, app_size = 4096,
         tables = [\<lparr>table_offset = 4096, table_size = 4096\<rparr>]\<rparr>,
      read_only_section = \<lparr>section_offset = 12288, app_size = 4096,
         tables = [\<lparr>table_offset = 28672, table_size = 4096\<rparr>]\<rparr>\<rparr>"

definition sample_get_flash_info :: "byte list \<Rightarrow> flash_info" where
  "sample_get_flash_info b = sample_flash_info"

definition keep_image :: "flash_info \<Rightarrow> flash_info \<Rightarrow> byte list \<Rightarrow> byte list" where
  "keep_image backup_info image_info img = img"

section \<open>Properties\<close>

subsection \<open>Projections of traces\<close>

lemma sends_of_append: "sends_of (xs @ ys) = sends_of xs @ sends_of ys"
  by (simp add: sends_of_def)

lemma progress_of_append: "progress_of (xs @ ys) = progress_of xs @ progress_of ys"
  by (simp add: progress_of_def)

lemma progress_of_simps:
  "progress_of [] = []"
  "progress_of (Progress p # tr) = p # progress_of tr"
  "progress_of (Send c # tr) = progress_of tr"
  by (simp_all add: progress_of_def)

lemma blocks_of_append: "blocks_of (xs @ ys) = blocks_of xs @ blocks_of ys"
  by (simp add: blocks_of_def)

lemma blocks_of_simps:
  "blocks_of [] = []"
  "blocks_of (Set_data_512 rv # tr) = rv # blocks_of tr"
  "blocks_of (Set_cmd a b # tr) = blocks_of tr"
  "blocks_of (Get_cmd # tr) = blocks_of tr"
  "blocks_of (Progress p # tr) = blocks_of tr"
  "blocks_of (Sleep_ms n # tr) = blocks_of tr"
  by (simp_all add: blocks_of_def)

lemma run_eta: "\<lparr>sent = sent s, polled = polled s, trace = trace s\<rparr> = s"
  by simp

subsection \<open>The reset command is sent by no step before the end of update\_flash\<close>

lemma resets_emit: "e \<noteq> Send (command HWRST) \<Longrightarrow> resets (trace (emit e s)) = resets (trace s)"
  by (simp add: resets_def emit_def)

lemma resets_progress: "resets (trace (on_update_progress callback p s)) = resets (trace s)"
  by (simp add: on_update_progress_def resets_emit)

lemma resets_send:
  "cmd c \<noteq> HWRST \<Longrightarrow> resets (trace (snd (send hwm c s))) = resets (trace s)"
  by (auto simp: send_def resets_def command_def split: option.splits)

lemma resets_send':
  "cmd c \<noteq> HWRST \<Longrightarrow> send hwm c s = (r, s') \<Longrightarrow> resets (trace s') = resets (trace s)"
  using resets_send [of c hwm s] by simp

lemma resets_backup_chunk:
  "resets (trace (snd (backup_chunk hwm i offset sz j appended flash s))) = resets (trace s)"
proof (induction hwm i offset sz j appended flash s rule: backup_chunk.induct)
  case (1 hwm i offset sz j appended flash s)
  let ?c = "(command FRB)\<lparr>param1 := offset, param2 := sz\<rparr>"
  have c: "cmd ?c \<noteq> HWRST" by (simp add: command_def)
  obtain r s' where snd: "send hwm ?c s = (r, s')" by (cases "send hwm ?c s")
  note tr = resets_send' [OF c snd]
  show ?case
  proof (cases "j < retries \<and> \<not> appended")
    case False
    then show ?thesis by (subst backup_chunk.simps) auto
  next
    case True
    show ?thesis
    proof (cases r)
      case (Inr res)
      with True snd tr "1.IH"(2) [OF True snd [symmetric] Inr] show ?thesis
        by (subst backup_chunk.simps) simp
    next
      case (Inl e)
      show ?thesis
      proof (cases "i < retries - 1")
        case False
        with Inl True snd tr show ?thesis
          by (subst backup_chunk.simps) simp
      next
        case again: True
        with Inl True snd tr "1.IH"(1) [OF True snd [symmetric] Inl again] show ?thesis
          by (subst backup_chunk.simps) (simp add: resets_emit)
      qed
    qed
  qed
qed

lemma resets_backup_loop:
  "resets (trace (snd (backup_loop hwm callback i flash s))) = resets (trace s)"
proof (induction hwm callback i flash s rule: backup_loop.induct)
  case (1 hwm callback i flash s)
  let ?ch = "backup_chunk hwm i (max_bulk_size * i)
                (if i = max_iterations - 1 then flash_size - max_bulk_size * i else max_bulk_size)
                0 False flash s"
  obtain r s' where ch: "?ch = (r, s')" by (cases ?ch)
  have "resets (trace (snd ?ch)) = resets (trace s)"
    by (rule resets_backup_chunk)
  then have tr: "resets (trace s') = resets (trace s)"
    by (simp add: ch)
  show ?case
  proof (cases "i < max_iterations")
    case False
    then show ?thesis by (subst backup_loop.simps) simp
  next
    case True
    show ?thesis
    proof (cases r)
      case (Inl e)
      with True ch tr show ?thesis by (subst backup_loop.simps) simp
    next
      case (Inr flash')
      with True ch tr "1.IH" [OF True ch [symmetric] Inr] show ?thesis
        by (subst backup_loop.simps) (simp add: resets_progress)
    qed
  qed
qed

lemma resets_backup_flash:
  "resets (trace (snd (backup_flash hwm callback s))) = resets (trace s)"
  using resets_backup_loop [of hwm callback 0 "[]" s]
  by (auto simp: backup_flash_def resets_progress split: prod.splits sum.splits)

lemma resets_write_packets:
  "resets (trace (snd (write_packets Z H hwm img sector_index limit i s))) = resets (trace s)"
proof (induction Z H hwm img sector_index limit i s rule: write_packets.induct)
  case (1 Z H hwm img sector_index limit i s)
  let ?c = "(command FWB)\<lparr>require_response := False,
                      param1 := int_cast (sector_index * Z + i),
                      param2 := int (min (H - i mod H) (Z - i)),
                      data := take (min (H - i mod H) (Z - i)) (drop (sector_index * Z + i) img)\<rparr>"
  have c: "cmd ?c \<noteq> HWRST" by (simp add: command_def)
  obtain r s' where snd: "send hwm ?c s = (r, s')" by (cases "send hwm ?c s")
  note tr = resets_send' [OF c snd]
  show ?case
  proof (cases "i < Z \<and> 0 < H \<and> \<not> limit \<le> sector_index * Z + i")
    case False
    then show ?thesis by (subst write_packets.simps) auto
  next
    case True
    show ?thesis
    proof (cases r)
      case (Inl e)
      with True snd tr show ?thesis by (subst write_packets.simps) simp
    next
      case (Inr res)
      from True have a: "i < Z \<and> 0 < H" and b: "\<not> limit \<le> sector_index * Z + i" by auto
      from Inr True snd tr "1.IH" [OF a b snd [symmetric] Inr] show ?thesis
        by (subst write_packets.simps) simp
    qed
  qed
qed

lemma resets_sector_loop:
  "resets (trace (snd (sector_loop Z H hwm img limit callback continue_from ratio sector_count
      sector_index s))) = resets (trace s)"
proof (induction Z H hwm img limit callback continue_from ratio sector_count sector_index s
        rule: sector_loop.induct)
  case (1 Z H hwm img limit callback continue_from ratio sector_count sector_index s)
  let ?c = "(command FES)\<lparr>require_response := False,
                          param1 := int_cast sector_index, param2 := 1\<rparr>"
  have c: "cmd ?c \<noteq> HWRST" by (simp add: command_def)
  obtain r s' where snd: "send hwm ?c s = (r, s')" by (cases "send hwm ?c s")
  note tr = resets_send' [OF c snd]
  obtain r2 s2 where wp: "write_packets Z H hwm img sector_index limit 0 s' = (r2, s2)"
    by (cases "write_packets Z H hwm img sector_index limit 0 s'")
  have tr2: "resets (trace s2) = resets (trace s)"
    using resets_write_packets [of Z H hwm img sector_index limit 0 s'] wp tr by simp
  show ?case
  proof (cases "sector_index < sector_count")
    case False
    then show ?thesis by (subst sector_loop.simps) simp
  next
    case True
    show ?thesis
    proof (cases r)
      case (Inl e)
      with True snd tr show ?thesis by (subst sector_loop.simps) simp
    next
      case (Inr res)
      note r = this
      show ?thesis
      proof (cases r2)
        case (Inl e)
        with True r snd wp tr2 show ?thesis by (subst sector_loop.simps) simp
      next
        case (Inr u)
        from True r Inr snd wp tr2
          "1.IH" [OF True snd [symmetric] r wp [symmetric] Inr]
        show ?thesis
          by (subst sector_loop.simps) (simp add: resets_progress)
      qed
    qed
  qed
qed

lemma resets_update_flash_section:
  "resets (trace (snd (update_flash_section Z H hwm img offset sz callback continue_from ratio s)))
     = resets (trace s)"
  by (simp add: update_flash_section_def Let_def resets_sector_loop)

lemma resets_update_section:
  "resets (trace (snd (update_section Z H hwm merged_image fs tables_size callback continue_from
      ratio s))) = resets (trace s)"
proof (cases "tables fs")
  case Nil
  then show ?thesis by (simp add: update_section_def)
next
  case (Cons t ts)
  let ?total = "of_nat (unat (app_size fs + tables_size)) :: rat"
  let ?app = "fmul (fdiv (of_nat (unat (app_size fs))) ?total) ratio"
  let ?u1 = "update_flash_section Z H hwm merged_image (section_offset fs) (app_size fs)
               callback continue_from ?app s"
  obtain r s' where u1: "?u1 = (r, s')" by (cases ?u1)
  have tr: "resets (trace s') = resets (trace s)"
    using resets_update_flash_section [of Z H hwm merged_image "section_offset fs" "app_size fs"
        callback continue_from ?app s] u1 by simp
  show ?thesis
    using Cons u1 tr
    by (cases r) (simp_all add: update_section_def Let_def resets_update_flash_section)
qed

lemma resets_update_flash_internal:
  "resets (trace (snd (update_flash_internal Z H get_flash_info merge_images hwm img flash_backup
      callback mode s))) = resets (trace s)"
proof -
  let ?info = "get_flash_info img"
  let ?m = "merge_images (get_flash_info flash_backup) ?info img"
  show ?thesis
  proof (cases "tables (read_write_section ?info)")
    case Nil
    then show ?thesis by (simp add: update_flash_internal_def Let_def)
  next
    case (Cons t ts)
    let ?u1 = "update_section Z H hwm ?m (read_write_section ?info)
                    (read_write_start_address (header ?info)
                       + read_write_size (header ?info) - table_offset t)
                    callback (Fin 0)
                    (if mode = RS2_UNSIGNED_UPDATE_MODE_READ_ONLY then Fin (1/2) else Fin 1) s"
    obtain r s' where u1: "?u1 = (r, s')" by (cases ?u1)
    have "resets (trace (snd ?u1)) = resets (trace s)"
      by (rule resets_update_section)
    then have tr: "resets (trace s') = resets (trace s)"
      by (simp add: u1)
    show ?thesis
      using Cons u1 tr
      by (cases r; cases "tables (read_only_section ?info)")
         (simp_all add: update_flash_internal_def Let_def resets_update_section)
  qed
qed

lemma resets_block_loop:
  "resets (trace (block_loop img callback blocks_count remaining_bytes offset block_number s))
     = resets (trace s)"
proof (induction img callback blocks_count remaining_bytes offset block_number s
        rule: block_loop.induct)
  case (1 img callback blocks_count remaining_bytes offset block_number s)
  show ?case
  proof (cases "0 < remaining_bytes")
    case False
    then show ?thesis by (subst block_loop.simps) simp
  next
    case True
    show ?thesis
    proof (cases "remaining_bytes < transfer_size")
      case True
      with \<open>0 < remaining_bytes\<close> show ?thesis
        by (subst block_loop.simps) (simp add: set_data_512_def resets_emit)
    next
      case False
      with \<open>0 < remaining_bytes\<close> "1.IH" [OF \<open>0 < remaining_bytes\<close> False] show ?thesis
        by (subst block_loop.simps) (simp add: set_data_512_def resets_emit resets_progress)
    qed
  qed
qed

lemma resets_get_cmd: "resets (trace (snd (get_cmd al3d s))) = resets (trace s)"
  by (simp add: get_cmd_def resets_def)

lemma resets_poll_loop: "resets (trace (snd (poll_loop al3d i s))) = resets (trace s)"
proof (induction al3d i s rule: poll_loop.induct)
  case (1 al3d i s)
  obtain result s' where g: "get_cmd al3d (emit (Sleep_ms 1000) s) = (result, s')"
    by (cases "get_cmd al3d (emit (Sleep_ms 1000) s)")
  have tr: "resets (trace s') = resets (trace s)"
    using resets_get_cmd [of al3d "emit (Sleep_ms 1000) s"] g by (simp add: resets_emit)
  show ?case
  proof (cases "i < max_loop")
    case False
    then show ?thesis by (subst poll_loop.simps) simp
  next
    case True
    show ?thesis
    proof (cases "p1 result 0 = 0 \<and> p1 result 1 = 0 \<and> p1 result 2 = 0 \<and> p1 result 3 = 0")
      case True
      with \<open>i < max_loop\<close> g tr show ?thesis by (subst poll_loop.simps) simp
    next
      case False
      note nz = this
      show ?thesis
      proof (cases "p1 result 0 = 0x80 \<or> p1 result 0 = 0x82")
        case True
        with \<open>i < max_loop\<close> nz g tr show ?thesis by (subst poll_loop.simps) auto
      next
        case False
        with \<open>i < max_loop\<close> nz g tr "1.IH" [OF \<open>i < max_loop\<close> g [symmetric] nz False]
        show ?thesis by (subst poll_loop.simps) auto
      qed
    qed
  qed
qed

lemma resets_al3d_fw_update_start:
  "resets (trace (snd (al3d_fw_update_start al3d img callback mode s))) = resets (trace s)"
proof (cases "mode = AL3D_UNSIGNED_UPDATE_MODE_FULL")
  case False
  then show ?thesis by (cases mode) (simp_all add: al3d_fw_update_start_def)
next
  case True
  let ?p2 = "length img div transfer_size * transfer_size"
  let ?p2' = "if 0 < length img mod transfer_size then ?p2 + transfer_size else ?p2"
  let ?s3 = "block_loop img callback (word_of_nat (length img div transfer_size)) (length img) 0 0
               (snd (get_cmd al3d (set_cmd 0x00030001 (word_of_nat ?p2') s)))"
  let ?s4 = "set_cmd 0x00030101 (word_of_nat ?p2') ?s3"
  have s4: "resets (trace ?s4) = resets (trace s)"
    by (simp add: set_cmd_def resets_emit resets_block_loop resets_get_cmd)
  obtain r s5 where p: "poll_loop al3d 0 ?s4 = (r, s5)" by (cases "poll_loop al3d 0 ?s4")
  have "resets (trace s5) = resets (trace s)"
    using resets_poll_loop [of al3d 0 ?s4] p s4 by simp
  with True p show ?thesis
    by (cases r) (simp_all add: al3d_fw_update_start_def Let_def resets_progress)
qed

lemma resets_update_mode_switch:
  "resets (trace (snd (update_mode_switch Z H FLASH_SIZE get_flash_info merge_images hwm al3d img
      callback mode s))) = resets (trace s)"
proof -
  obtain r s' where b: "backup_flash hwm False s = (r, s')" by (cases "backup_flash hwm False s")
  have "resets (trace s') = resets (trace s)"
    using resets_backup_flash [of hwm False s] b by simp
  with b show ?thesis
    by (cases mode; cases r)
       (simp_all add: update_mode_switch_def resets_update_flash_section
          resets_update_flash_internal resets_al3d_fw_update_start)
qed
lemma resets_snoc:
  "resets (tr @ [e]) = resets tr + (if e = Send (command HWRST) then 1 else 0)"
  by (simp add: resets_def)

subsection \<open>The disconnect wait\<close>

lemma waits_0: "waits D 0 s = s"
  by (simp add: waits_def)

lemma waits_Suc: "waits D k (emit (Sleep_ms (int D)) (emit Is_valid s)) = waits D (Suc k) s"
  by (simp add: waits_def emit_def)

lemma disconnect_loop_valid:
  "\<forall>j<k. is_valid (i + j) = Inr True \<Longrightarrow> i + k \<le> M \<Longrightarrow>
   disconnect_loop M D is_valid i s = disconnect_loop M D is_valid (i + k) (waits D k s)"
proof (induction k arbitrary: i s)
  case 0
  then show ?case by (simp add: waits_0)
next
  case (Suc k)
  from Suc.prems have v: "is_valid i = Inr True" and i: "i < M"
    by auto
  have rest: "\<forall>j<k. is_valid (i + 1 + j) = Inr True"
  proof (intro allI impI)
    fix j assume "j < k"
    then have "Suc j < Suc k" by simp
    with Suc.prems(1) have "is_valid (i + Suc j) = Inr True" by blast
    then show "is_valid (i + 1 + j) = Inr True" by simp
  qed
  have "disconnect_loop M D is_valid i s
      = disconnect_loop M D is_valid (i + 1) (emit (Sleep_ms (int D)) (emit Is_valid s))"
    using v i by (subst disconnect_loop.simps) simp
  also have "\<dots> = disconnect_loop M D is_valid (i + 1 + k)
                     (waits D k (emit (Sleep_ms (int D)) (emit Is_valid s)))"
    using Suc.prems(2) by (intro Suc.IH [OF rest]) simp
  finally show ?case by (simp add: waits_Suc)
qed

lemma disconnect_loop_polls:
  "count_list (trace (snd (disconnect_loop M D is_valid i s))) Is_valid
     \<le> count_list (trace s) Is_valid + (M - i)"
proof (induction M D is_valid i s rule: disconnect_loop.induct)
  case (1 M D is_valid i s)
  show ?case
  proof (cases "i < M")
    case False
    then show ?thesis by (subst disconnect_loop.simps) simp
  next
    case True
    show ?thesis
    proof (cases "is_valid i")
      case (Inl e)
      with True show ?thesis
        by (subst disconnect_loop.simps) (simp add: emit_def)
    next
      case (Inr valid)
      show ?thesis
      proof (cases valid)
        case False
        with Inr True show ?thesis
          by (subst disconnect_loop.simps) (simp add: emit_def)
      next
        case valid: True
        from "1.IH" [OF True Inr] valid
        have "count_list (trace (snd (disconnect_loop M D is_valid (i + 1)
                  (emit (Sleep_ms (int D)) (emit Is_valid s))))) Is_valid
              \<le> count_list (trace (emit (Sleep_ms (int D)) (emit Is_valid s))) Is_valid + (M - (i + 1))"
          by simp
        with Inr True valid show ?thesis
          by (subst disconnect_loop.simps) (simp add: emit_def)
      qed
    qed
  qed
qed

text \<open>
  C9: \<open>enter_update_state\<close> returns normally whatever the device, the presence
  predicate (which may throw at any poll) and the notification flag are, and it polls
  at most \<open>(POLLING_DEVICES_INTERVAL_MS + 1000) / DELAY_FOR_RETRIES\<close> times. When
  the command is sent and the presence predicate is true at the polls before poll
  \<open>i\<close> and false at poll \<open>i\<close>, the function returns right after poll \<open>i\<close>: the
  trace ends with that poll, with no sleep, no further poll and no log line after it.
\<close>

theorem enter_update_state_returns:
  "fst (enter_update_state P D hwm is_valid notifications_on s) = Inr ()
   \<and> count_list (trace (snd (enter_update_state P D hwm is_valid notifications_on s))) Is_valid
       \<le> count_list (trace s) Is_valid + (P + 1000) div D
   \<and> (hwm (sent s) dfu_cmd \<noteq> None \<and> i < (P + 1000) div D
        \<and> (\<forall>j<i. is_valid j = Inr True) \<and> is_valid i = Inr False
      \<longrightarrow> enter_update_state P D hwm is_valid notifications_on s =
            (Inr (), \<lparr>sent = sent s + 1, polled = polled s,
                      trace = trace s @ [Stop_activity, Send dfu_cmd]
                                @ concat (replicate i [Is_valid, Sleep_ms (int D)])
                                @ [Is_valid]\<rparr>))"
proof (intro conjI impI)
  show "fst (enter_update_state P D hwm is_valid notifications_on s) = Inr ()"
    by (simp add: enter_update_state_def split: prod.splits sum.splits)
next
  let ?M = "(P + 1000) div D"
  let ?s0 = "stop_activity s"
  obtain r1 s1 where snd: "send hwm ((command DFU)\<lparr>param1 := 1\<rparr>) ?s0 = (r1, s1)"
    by (cases "send hwm ((command DFU)\<lparr>param1 := 1\<rparr>) ?s0")
  then have c1: "count_list (trace s1) Is_valid = count_list (trace s) Is_valid"
    by (auto simp: send_def stop_activity_def emit_def split: option.splits)
  obtain r2 s2 where dl: "disconnect_loop ?M D is_valid 0 s1 = (r2, s2)"
    by (cases "disconnect_loop ?M D is_valid 0 s1")
  have c2: "count_list (trace s2) Is_valid \<le> count_list (trace s) Is_valid + ?M"
    using disconnect_loop_polls [of ?M D is_valid 0 s1] dl c1 by simp
  show "count_list (trace (snd (enter_update_state P D hwm is_valid notifications_on s))) Is_valid
       \<le> count_list (trace s) Is_valid + ?M"
    using snd dl c1 c2
    by (cases r1; cases r2) (auto simp: enter_update_state_def emit_def)
next
  let ?M = "(P + 1000) div D"
  assume a: "hwm (sent s) dfu_cmd \<noteq> None \<and> i < ?M
        \<and> (\<forall>j<i. is_valid j = Inr True) \<and> is_valid i = Inr False"
  let ?s1 = "\<lparr>sent = Suc (sent s), polled = polled s,
               trace = trace s @ [Stop_activity, Send dfu_cmd]\<rparr>"
  from a obtain res where snd: "send hwm ((command DFU)\<lparr>param1 := 1\<rparr>) (stop_activity s)
      = (Inr res, ?s1)"
    by (auto simp: send_def stop_activity_def emit_def dfu_cmd_def)
  from a have "disconnect_loop ?M D is_valid 0 ?s1
      = disconnect_loop ?M D is_valid (0 + i) (waits D i ?s1)"
    by (intro disconnect_loop_valid) auto
  also have "\<dots> = (Inr True, emit Is_valid (waits D i ?s1))"
    using a by (subst disconnect_loop.simps) simp
  finally have dl: "disconnect_loop ?M D is_valid 0 ?s1 = (Inr True, emit Is_valid (waits D i ?s1))" .
  show "enter_update_state P D hwm is_valid notifications_on s =
            (Inr (), \<lparr>sent = sent s + 1, polled = polled s,
                      trace = trace s @ [Stop_activity, Send dfu_cmd]
                                @ concat (replicate i [Is_valid, Sleep_ms (int D)])
                                @ [Is_valid]\<rparr>)"
    by (simp add: enter_update_state_def snd dl emit_def waits_def)
qed

theorem enter_update_state_returns_witness:
  "enter_update_state 2000 50 ok_device valid_twice True run0 =
     (Inr (), \<lparr>sent = 1, polled = 0,
               trace = [Stop_activity, Send dfu_cmd, Is_valid, Sleep_ms 50, Is_valid, Sleep_ms 50,
                        Is_valid]\<rparr>)"
proof -
  have "ok_device (sent run0) dfu_cmd \<noteq> None \<and> 2 < (2000 + 1000) div (50 :: nat)
        \<and> (\<forall>j<2. valid_twice j = Inr True) \<and> valid_twice 2 = Inr False"
    by (simp add: ok_device_def valid_twice_def)
  with enter_update_state_returns [of 2000 50 ok_device valid_twice True run0 2]
  show ?thesis
    by (simp add: run0_def numeral_2_eq_2)
qed

subsection \<open>The flash backup\<close>

lemma backup_chunk_ok:
  "hwm (sent s) ((command FRB)\<lparr>param1 := offset, param2 := sz\<rparr>) = Some res \<Longrightarrow>
   backup_chunk hwm i offset sz 0 False flash s =
     (Inr (flash @ res),
      \<lparr>sent = sent s + 1, polled = polled s,
         trace = trace s @ [Send ((command FRB)\<lparr>param1 := offset, param2 := sz\<rparr>)]\<rparr>)"
  by (simp add: backup_chunk.simps [of hwm i offset sz 0] backup_chunk.simps [of hwm i offset sz 1]
        send_def retries_def)

lemma backup_loop_ok:
  assumes "\<forall>n c. sent s \<le> n \<longrightarrow> hwm n c \<noteq> None"
  shows "backup_loop hwm callback i flash s =
     (Inr (flash @ concat (map (\<lambda>k. the (hwm (sent s + nat (k - i)) (read_cmd k)))
                              [i..max_iterations - 1])),
      \<lparr>sent = sent s + nat (max_iterations - i), polled = polled s,
         trace = trace s @ concat (map (chunk_events callback) [i..max_iterations - 1])\<rparr>)"
  using assms
proof (induction hwm callback i flash s rule: backup_loop.induct)
  case (1 hwm callback i flash s)
  show ?case
  proof (cases "i < max_iterations")
    case False
    then show ?thesis
      by (subst backup_loop.simps) simp
  next
    case True
    let ?c = "(command FRB)\<lparr>param1 := max_bulk_size * i,
                param2 := (if i = max_iterations - 1 then flash_size - max_bulk_size * i
                           else max_bulk_size)\<rparr>"
    from "1.prems" obtain res where res: "hwm (sent s) ?c = Some res"
      by (metis le_refl not_None_eq)
    let ?s1 = "\<lparr>sent = sent s + 1, polled = polled s, trace = trace s @ [Send ?c]\<rparr>"
    let ?s2 = "on_update_progress callback (fdiv (of_int i) (of_int max_iterations)) ?s1"
    have chunk: "backup_chunk hwm i (max_bulk_size * i)
            (if i = max_iterations - 1 then flash_size - max_bulk_size * i else max_bulk_size)
            0 False flash s = (Inr (flash @ res), ?s1)"
      using res by (rule backup_chunk_ok)
    have sent2: "sent ?s2 = sent s + 1" and polled2: "polled ?s2 = polled s"
      and trace2: "trace ?s2 = trace s @ chunk_events callback i"
      by (simp_all add: on_update_progress_def emit_def chunk_events_def read_cmd_def)
    have ok2: "\<forall>n c. sent ?s2 \<le> n \<longrightarrow> hwm n c \<noteq> None"
      using "1.prems" sent2 by simp
    have IH: "backup_loop hwm callback (i + 1) (flash @ res) ?s2 =
       (Inr ((flash @ res) @ concat (map (\<lambda>k. the (hwm (sent ?s2 + nat (k - (i + 1))) (read_cmd k)))
                              [i + 1..max_iterations - 1])),
        \<lparr>sent = sent ?s2 + nat (max_iterations - (i + 1)), polled = polled ?s2,
           trace = trace ?s2 @ concat (map (chunk_events callback) [i + 1..max_iterations - 1])\<rparr>)"
      using "1.IH" [OF True chunk [symmetric] refl ok2] .
    have resp: "map (\<lambda>k. the (hwm (sent ?s2 + nat (k - (i + 1))) (read_cmd k))) [i + 1..max_iterations - 1]
        = map (\<lambda>k. the (hwm (sent s + nat (k - i)) (read_cmd k))) [i + 1..max_iterations - 1]"
    proof (rule map_cong [OF refl])
      fix k assume "k \<in> set [i + 1..max_iterations - 1]"
      then have "i + 1 \<le> k" by simp
      then have "sent ?s2 + nat (k - (i + 1)) = sent s + nat (k - i)"
        unfolding sent2 by linarith
      then show "the (hwm (sent ?s2 + nat (k - (i + 1))) (read_cmd k))
                 = the (hwm (sent s + nat (k - i)) (read_cmd k))"
        by simp
    qed
    have up: "[i..max_iterations - 1] = i # [i + 1..max_iterations - 1]"
      using True by (simp add: upto_rec1)
    have r0: "the (hwm (sent s + nat (i - i)) (read_cmd i)) = res"
      using res by (simp add: read_cmd_def)
    have cnt: "sent ?s2 + nat (max_iterations - (i + 1)) = sent s + nat (max_iterations - i)"
      unfolding sent2 using True by linarith
    have "backup_loop hwm callback i flash s = backup_loop hwm callback (i + 1) (flash @ res) ?s2"
      using True chunk by (subst backup_loop.simps) simp
    also note IH
    finally show ?thesis
      unfolding resp cnt polled2 trace2 up using r0 by simp
  qed
qed

lemma constants: "flash_size = 2097152" "max_bulk_size = 1016" "max_iterations = 2065"
  by (simp_all add: flash_size_def max_bulk_size_def max_iterations_def)

lemma backup_flash_ok:
  assumes "\<forall>n c. hwm n c \<noteq> None"
  shows "backup_flash hwm callback run0 =
     (Inr (concat (map (\<lambda>k. the (hwm (nat k) (read_cmd k))) [0..max_iterations - 1])),
      \<lparr>sent = nat max_iterations, polled = 0,
         trace = concat (map (chunk_events callback) [0..max_iterations - 1])
                   @ (if callback then [Progress (Fin 1)] else [])\<rparr>)"
proof -
  have "\<forall>n c. sent run0 \<le> n \<longrightarrow> hwm n c \<noteq> None"
    using assms by simp
  from backup_loop_ok [OF this, of callback 0 "[]"] show ?thesis
    by (simp add: backup_flash_def run0_def on_update_progress_def emit_def)
qed

lemma sends_of_chunks: "sends_of (concat (map (chunk_events callback) ks)) = map read_cmd ks"
  by (induction ks) (simp_all add: sends_of_def chunk_events_def)

lemma progress_of_chunks:
  "progress_of (concat (map (chunk_events callback) ks)) =
     (if callback then map (\<lambda>k. fdiv (of_int k) (of_int max_iterations)) ks else [])"
  by (induction ks) (simp_all add: progress_of_def chunk_events_def)

lemma cover_full:
  assumes "0 \<le> n" and "0 < C"
  shows "concat (map (\<lambda>k. [C * k..C * k + C - 1]) [0..n - 1]) = [0..C * n - 1]"
  using assms
proof (induction n rule: int_ge_induct)
  case base
  then show ?case by simp
next
  case (step n)
  have "[0..n + 1 - 1] = [0..n - 1] @ [n]"
    using step.hyps by (simp add: upto_rec2)
  moreover have "[0..C * (n + 1) - 1] = [0..C * n - 1] @ [C * n..C * n + C - 1]"
  proof -
    have "0 \<le> C * n" using step by simp
    then have "[0..C * n + C - 1] = [0..C * n - 1] @ [C * n..C * n + C - 1]"
      using step.prems by (intro upto_split1) auto
    then show ?thesis by (simp add: algebra_simps)
  qed
  ultimately show ?case using step by simp
qed

lemma max_iterations_pos: "1 \<le> max_iterations - 1" "0 \<le> max_iterations - 1" "0 < max_iterations"
  by (simp_all add: constants)

lemma chunks_cover:
  "concat (map (\<lambda>k. [param1 (read_cmd k)..param1 (read_cmd k) + param2 (read_cmd k) - 1])
       [0..max_iterations - 1]) = [0..flash_size - 1]"
proof -
  let ?f = "\<lambda>k. [param1 (read_cmd k)..param1 (read_cmd k) + param2 (read_cmd k) - 1]"
  let ?n = "max_iterations - 1"
  have split: "[0..?n] = [0..?n - 1] @ [?n]"
    using max_iterations_pos(2) by (rule upto_rec2)
  have same: "map ?f [0..?n - 1]
      = map (\<lambda>k. [max_bulk_size * k..max_bulk_size * k + max_bulk_size - 1]) [0..?n - 1]"
    by (rule map_cong [OF refl]) (auto simp: read_cmd_def command_def)
  have "0 < max_bulk_size"
    by (simp add: constants)
  then have front: "concat (map ?f [0..?n - 1]) = [0..max_bulk_size * ?n - 1]"
    unfolding same by (rule cover_full [OF max_iterations_pos(2)])
  have last: "?f ?n = [max_bulk_size * ?n..flash_size - 1]"
    by (simp add: read_cmd_def command_def)
  have "[0..flash_size - 1] = [0..max_bulk_size * ?n - 1] @ [max_bulk_size * ?n..flash_size - 1]"
    by (intro upto_split1) (simp_all add: constants)
  then show ?thesis
    unfolding split using front last by simp
qed
lemma backup_flash_quiet:
  assumes "\<forall>n c. sent s \<le> n \<longrightarrow> hwm n c \<noteq> None"
  shows "fst (backup_flash hwm False s) \<noteq> Inl e"
    and "progress_of (trace (snd (backup_flash hwm False s))) = progress_of (trace s)"
proof -
  have ev: "progress_of (concat (map (chunk_events False) ks)) = []" for ks
    by (simp add: progress_of_chunks)
  from backup_loop_ok [OF assms, of False 0 "[]"]
  show "fst (backup_flash hwm False s) \<noteq> Inl e"
    and "progress_of (trace (snd (backup_flash hwm False s))) = progress_of (trace s)"
    by (simp_all add: backup_flash_def on_update_progress_def progress_of_append ev)
qed

text \<open>
  C2, as the code has it: when every command is answered, \<open>backup_flash\<close> sends 2065
  read commands, the ceiling of 2097152 / 1016; command \<open>k\<close> reads 1016 bytes at
  offset \<open>1016 * k\<close>, the last one the remaining 128 bytes; the ranges read, in order,
  are exactly the addresses 0 to 2097151; after chunk \<open>k\<close> (counted from 0) the
  callback, when there is one, receives \<open>k / 2065\<close>, the number of chunks completed
  before that chunk over the total, and after the last chunk it receives 1.0.
\<close>

theorem backup_flash_chunks:
  assumes "\<forall>n c. hwm n c \<noteq> None"
  shows "flash_size = 2097152 \<and> max_bulk_size = 1016 \<and> max_iterations = 2065
    \<and> max_iterations = \<lceil>(of_int flash_size :: rat) / of_int max_bulk_size\<rceil>
    \<and> sends_of (trace (snd (backup_flash hwm callback run0))) = map read_cmd [0..max_iterations - 1]
    \<and> cmd (read_cmd k) = FRB \<and> param1 (read_cmd k) = 1016 * k
    \<and> param2 (read_cmd k) = (if k = 2064 then 128 else 1016)
    \<and> concat (map (\<lambda>k. [param1 (read_cmd k)..param1 (read_cmd k) + param2 (read_cmd k) - 1])
         [0..max_iterations - 1]) = [0..flash_size - 1]
    \<and> trace (snd (backup_flash hwm callback run0)) =
         concat (map (chunk_events callback) [0..max_iterations - 1])
           @ (if callback then [Progress (Fin 1)] else [])
    \<and> progress_of (trace (snd (backup_flash hwm callback run0))) =
         (if callback
          then map (\<lambda>k. fdiv (of_int k) (of_int max_iterations)) [0..max_iterations - 1] @ [Fin 1]
          else [])"
proof -
  note ok = backup_flash_ok [OF assms, of callback]
  have c1: "max_iterations = \<lceil>(of_int flash_size :: rat) / of_int max_bulk_size\<rceil>"
  proof -
    have "\<lceil>(2097152 :: rat) / 1016\<rceil> = 2065"
      by (rule ceiling_unique) simp_all
    then show ?thesis by (simp add: constants)
  qed
  have c2: "sends_of (trace (snd (backup_flash hwm callback run0))) = map read_cmd [0..max_iterations - 1]"
    unfolding ok by (simp add: sends_of_append sends_of_chunks) (simp add: sends_of_def)
  have c3: "cmd (read_cmd k) = FRB" "param1 (read_cmd k) = 1016 * k"
     "param2 (read_cmd k) = (if k = 2064 then 128 else 1016)"
    by (simp_all add: read_cmd_def command_def constants)
  have c4: "trace (snd (backup_flash hwm callback run0)) =
         concat (map (chunk_events callback) [0..max_iterations - 1])
           @ (if callback then [Progress (Fin 1)] else [])"
    unfolding ok by simp
  have c5: "progress_of (trace (snd (backup_flash hwm callback run0))) =
         (if callback
          then map (\<lambda>k. fdiv (of_int k) (of_int max_iterations)) [0..max_iterations - 1] @ [Fin 1]
          else [])"
    unfolding c4 by (simp add: progress_of_append progress_of_chunks) (simp add: progress_of_def)
  from constants c1 c2 c3 chunks_cover c4 c5 show ?thesis
    by (intro conjI)
qed

theorem backup_flash_chunks_witness:
  "(\<forall>n c. ok_device n c \<noteq> None)
   \<and> sends_of (trace (snd (backup_flash ok_device True run0))) = map read_cmd [0..max_iterations - 1]"
proof -
  have h: "\<forall>n c. ok_device n c \<noteq> None"
    by (simp add: ok_device_def)
  from backup_flash_chunks [OF h, of True 0] have
    "sends_of (trace (snd (backup_flash ok_device True run0))) = map read_cmd [0..max_iterations - 1]"
    by (elim conjE)
  with h show ?thesis by (intro conjI)
qed

text \<open>
  After the first chunk the callback receives 0, not 1 / 2065: the value is not the
  number of completed chunks over the total.
\<close>

theorem backup_flash_progress_counterexample:
  "take 2 (trace (snd (backup_flash ok_device True run0))) = [Send (read_cmd 0), Progress (Fin 0)]
   \<and> Fin 0 \<noteq> fdiv 1 (of_int max_iterations)"
proof -
  have h: "\<forall>n c. ok_device n c \<noteq> None"
    by (simp add: ok_device_def)
  have up: "[0..max_iterations - 1] = 0 # [1..max_iterations - 1]"
    using upto_rec1 [OF max_iterations_pos(2)] by simp
  have "take 2 (trace (snd (backup_flash ok_device True run0))) = chunk_events True 0"
    unfolding backup_flash_ok [OF h] up by (simp add: chunk_events_def)
  moreover have "chunk_events True 0 = [Send (read_cmd 0), Progress (Fin 0)]"
    by (simp add: chunk_events_def fdiv_def constants)
  moreover have "Fin 0 \<noteq> fdiv 1 (of_int max_iterations)"
    by (simp add: fdiv_def constants)
  ultimately show ?thesis by simp
qed

text \<open>
  C3, evaluated: the handler of the retry loop compares the chunk index with
  \<open>retries - 1\<close>. A single failure on chunk 2 ends the backup at once, without a
  second attempt. Three failures on chunk 0 are followed by three sleeps and no
  exception: the backup goes on with chunk 1 and returns a flash without chunk 0.
\<close>

theorem backup_flash_retry_uses_chunk_index:
  "backup_flash fail_at_2 False run0 =
     (Inl Transport_error,
      \<lparr>sent = 3, polled = 0, trace = [Send (read_cmd 0), Send (read_cmd 1), Send (read_cmd 2)]\<rparr>)
   \<and> backup_flash fail_first_3 False run0 =
     (Inr (concat (map (\<lambda>k. replicate (nat (param2 (read_cmd k))) 255) [1..max_iterations - 1])),
      \<lparr>sent = 3 + nat (max_iterations - 1), polled = 0,
         trace = [Send (read_cmd 0), Sleep_ms 100, Send (read_cmd 0), Sleep_ms 100,
                  Send (read_cmd 0), Sleep_ms 100]
                 @ map (\<lambda>k. Send (read_cmd k)) [1..max_iterations - 1]\<rparr>)"
proof
  show "backup_flash fail_at_2 False run0 =
     (Inl Transport_error,
      \<lparr>sent = 3, polled = 0, trace = [Send (read_cmd 0), Send (read_cmd 1), Send (read_cmd 2)]\<rparr>)"
    by (simp add: backup_flash_def backup_loop.simps [of _ _ 0] backup_loop.simps [of _ _ 1]
          backup_loop.simps [of _ _ 2] backup_chunk.simps [of _ _ _ _ 0]
          backup_chunk.simps [of _ _ _ _ 1] constants retries_def send_def fail_at_2_def
          run0_def on_update_progress_def read_cmd_def)
next
  let ?s3 = "\<lparr>sent = 3, polled = 0,
               trace = [Send (read_cmd 0), Sleep_ms 100, Send (read_cmd 0), Sleep_ms 100,
                        Send (read_cmd 0), Sleep_ms 100]\<rparr>"
  have chunk0: "backup_chunk fail_first_3 0 0 max_bulk_size 0 False [] run0 = (Inr [], ?s3)"
    by (simp add: backup_chunk.simps [of _ _ _ _ 0] backup_chunk.simps [of _ _ _ _ 1]
          backup_chunk.simps [of _ _ _ _ 2] backup_chunk.simps [of _ _ _ _ 3]
          constants retries_def send_def fail_first_3_def run0_def emit_def read_cmd_def)
  have ok: "\<forall>n c. sent ?s3 \<le> n \<longrightarrow> fail_first_3 n c \<noteq> None"
    by (simp add: fail_first_3_def)
  have resp: "map (\<lambda>k. the (fail_first_3 (sent ?s3 + nat (k - 1)) (read_cmd k))) [1..max_iterations - 1]
      = map (\<lambda>k. replicate (nat (param2 (read_cmd k))) 255) [1..max_iterations - 1]"
    by (rule map_cong [OF refl]) (simp add: fail_first_3_def)
  have ev: "concat (map (chunk_events False) [1..max_iterations - 1])
      = map (\<lambda>k. Send (read_cmd k)) [1..max_iterations - 1]"
    by (induction "[1..max_iterations - 1]") (simp_all add: chunk_events_def)
  have ne: "0 \<noteq> max_iterations - 1"
    using max_iterations_pos(1) by simp
  have "backup_loop fail_first_3 False 0 [] run0 = backup_loop fail_first_3 False (0 + 1) [] ?s3"
    by (subst backup_loop.simps) (simp add: ne chunk0 on_update_progress_def max_iterations_pos)
  also have "\<dots> = (Inr ([] @ concat (map (\<lambda>k. the (fail_first_3 (sent ?s3 + nat (k - 1)) (read_cmd k)))
                              [1..max_iterations - 1])),
      \<lparr>sent = sent ?s3 + nat (max_iterations - 1), polled = polled ?s3,
         trace = trace ?s3 @ concat (map (chunk_events False) [1..max_iterations - 1])\<rparr>)"
    using backup_loop_ok [OF ok, of False 1 "[]"] by simp
  finally show "backup_flash fail_first_3 False run0 =
     (Inr (concat (map (\<lambda>k. replicate (nat (param2 (read_cmd k))) 255) [1..max_iterations - 1])),
      \<lparr>sent = 3 + nat (max_iterations - 1), polled = 0,
         trace = [Send (read_cmd 0), Sleep_ms 100, Send (read_cmd 0), Sleep_ms 100,
                  Send (read_cmd 0), Sleep_ms 100]
                 @ map (\<lambda>k. Send (read_cmd k)) [1..max_iterations - 1]\<rparr>)"
    unfolding resp ev by (simp add: backup_flash_def on_update_progress_def)
qed

subsection \<open>Writing a range of flash\<close>

text \<open>
  C1, evaluated with sectors of 4096 bytes and packets of at most 1000 bytes on the
  range of 4096 bytes at offset 6144, which lies in the sectors 1 and 2: the code
  erases sector 1 only and writes the bytes 4096 to 8191; sector 2 is not erased and
  the bytes 8192 to 10239 of the range are not written.
\<close>

theorem update_flash_section_unaligned:
  "map summary (sends_of (trace (snd
      (update_flash_section 4096 1000 ok_device img 6144 4096 callback continue_from ratio run0)))) =
   [(FES, 1, 1), (FWB, 4096, 1000), (FWB, 5096, 1000), (FWB, 6096, 1000), (FWB, 7096, 1000),
    (FWB, 8096, 96)]"
  by (simp add: update_flash_section_def sector_loop.simps write_packets.simps send_def
        ok_device_def run0_def command_def int_cast_def on_update_progress_def emit_def
        sends_of_def summary_def)

subsection \<open>Progress of an update\<close>

lemma read_only_update_progress:
  "fst (update_flash_internal 4096 1000 sample_get_flash_info merge_images ok_device img
          flash_backup True RS2_UNSIGNED_UPDATE_MODE_READ_ONLY s) = Inr ()
   \<and> progress_of (trace (snd (update_flash_internal 4096 1000 sample_get_flash_info merge_images
          ok_device img flash_backup True RS2_UNSIGNED_UPDATE_MODE_READ_ONLY s)))
     = progress_of (trace s) @ [Fin 0, Fin (3 / 8), Fin (11 / 16), Fin (15 / 32)]"
  by (simp add: update_flash_internal_def update_section_def update_flash_section_def Let_def
        sample_get_flash_info_def sample_flash_info_def
        sector_loop.simps write_packets.simps send_def
        ok_device_def command_def int_cast_def on_update_progress_def emit_def
        fdiv_def progress_of_append progress_of_simps)

text \<open>
  C4, evaluated in the mode \<open>READ_ONLY\<close> on the sample layout: the update succeeds
  and the callback receives 0, 3/8, 11/16, 15/32 and 1. The tables of the read-only
  section are reported from \<open>app_ratio\<close> instead of \<open>continue_from + app_ratio\<close>,
  so that the progress falls from 11/16 to 15/32.
\<close>

theorem read_only_update_progress_decreases:
  "fst (update_flash 4096 1000 2097152 sample_get_flash_info merge_images ok_device al3d img True
          RS2_UNSIGNED_UPDATE_MODE_READ_ONLY run0) = Inr ()
   \<and> progress_of (trace (snd (update_flash 4096 1000 2097152 sample_get_flash_info merge_images
          ok_device al3d img True RS2_UNSIGNED_UPDATE_MODE_READ_ONLY run0)))
     = [Fin 0, Fin (3 / 8), Fin (11 / 16), Fin (15 / 32), Fin 1]"
proof -
  have reset: "send ok_device (command HWRST) s =
      (Inr [], \<lparr>sent = sent s + 1, polled = polled s, trace = trace s @ [Send (command HWRST)]\<rparr>)"
    for s
    by (simp add: send_def ok_device_def)
  obtain s1 where pfd: "send ok_device ((command PFD)\<lparr>require_response := False\<rparr>) run0
      = (Inr [], s1)" and p1: "progress_of (trace s1) = []"
    by (simp add: send_def ok_device_def run0_def progress_of_simps)
  have ok: "\<forall>n c. sent s1 \<le> n \<longrightarrow> ok_device n c \<noteq> None"
    by (simp add: ok_device_def)
  obtain rb s2 where b: "backup_flash ok_device False s1 = (rb, s2)"
    by (cases "backup_flash ok_device False s1")
  from backup_flash_quiet [OF ok] b p1 obtain flash_backup where rb: "rb = Inr flash_backup"
    and p2: "progress_of (trace s2) = []"
    by (cases rb) auto
  let ?u = "update_flash_internal 4096 1000 sample_get_flash_info merge_images ok_device img
          flash_backup True RS2_UNSIGNED_UPDATE_MODE_READ_ONLY s2"
  obtain s3 where u: "?u = (Inr (), s3)"
    and p3: "progress_of (trace s3) = [Fin 0, Fin (3 / 8), Fin (11 / 16), Fin (15 / 32)]"
    using read_only_update_progress [of merge_images img flash_backup s2] p2
    by (cases ?u) auto
  show ?thesis
    by (simp add: update_flash_def update_mode_switch_def pfd b rb u reset
          on_update_progress_def emit_def progress_of_append p3 progress_of_simps)
qed

subsection \<open>The reset at the end of update\_flash\<close>

text \<open>
  C5, as the code has it: when the command \<open>PFD\<close> or the switch fails, \<open>update_flash\<close>
  fails with the same error and sends no reset; when both succeed, it calls the
  callback with 1.0, then sends the reset as its last command, once, and fails exactly
  when that command fails.
\<close>

theorem update_flash_reset_only_after_success:
  fixes Z H :: nat and FLASH_SIZE :: "32 word"
    and get_flash_info :: "byte list \<Rightarrow> flash_info"
    and merge_images :: "flash_info \<Rightarrow> flash_info \<Rightarrow> byte list \<Rightarrow> byte list"
    and hwm :: hw_monitor and al3d :: al3d_fw_update and img :: "byte list"
    and callback :: bool and mode :: update_mode and s :: run
  defines "s1 \<equiv> snd (send hwm pfd_cmd s)"
  defines "sw \<equiv> update_mode_switch Z H FLASH_SIZE get_flash_info merge_images hwm al3d img
                   callback mode s1"
  defines "r \<equiv> update_flash Z H FLASH_SIZE get_flash_info merge_images hwm al3d img callback mode s"
  shows "(fst (send hwm pfd_cmd s) = Inl e \<longrightarrow>
            r = (Inl e, s1) \<and> resets (trace (snd r)) = resets (trace s))
       \<and> (fst (send hwm pfd_cmd s) = Inr res \<and> fst sw = Inl e \<longrightarrow>
            r = (Inl e, snd sw) \<and> resets (trace (snd r)) = resets (trace s))
       \<and> (fst (send hwm pfd_cmd s) = Inr res \<and> fst sw = Inr () \<longrightarrow>
            trace (snd r) = trace (snd sw) @ (if callback then [Progress (Fin 1)] else [])
                              @ [Send (command HWRST)]
            \<and> resets (trace (snd r)) = resets (trace s) + 1
            \<and> fst r = (if hwm (sent (snd sw)) (command HWRST) = None then Inl Transport_error
                        else Inr ()))"
proof -
  have pfd: "cmd pfd_cmd \<noteq> HWRST"
    by (simp add: pfd_cmd_def command_def)
  have r1: "resets (trace s1) = resets (trace s)"
    unfolding s1_def using pfd by (rule resets_send)
  have r2: "resets (trace (snd sw)) = resets (trace s)"
    unfolding sw_def by (simp add: resets_update_mode_switch r1)
  have unfold: "r = (case send hwm pfd_cmd s of
        (Inl e, s1) \<Rightarrow> (Inl e, s1)
      | (Inr res, s1) \<Rightarrow>
          (case update_mode_switch Z H FLASH_SIZE get_flash_info merge_images hwm al3d img
                  callback mode s1 of
             (Inl e, s3) \<Rightarrow> (Inl e, s3)
           | (Inr u, s3) \<Rightarrow>
               (case send hwm (command HWRST) (on_update_progress callback (Fin 1) s3) of
                  (Inl e, s4) \<Rightarrow> (Inl e, s4)
                | (Inr res', s4) \<Rightarrow> (Inr (), s4))))"
    by (simp add: r_def update_flash_def pfd_cmd_def)
  show ?thesis
  proof (intro conjI impI)
    assume a: "fst (send hwm pfd_cmd s) = Inl e"
    then have "send hwm pfd_cmd s = (Inl e, s1)"
      by (simp add: s1_def prod_eq_iff)
    then show "r = (Inl e, s1)" by (simp add: unfold)
    then show "resets (trace (snd r)) = resets (trace s)" by (simp add: r1)
  next
    assume a: "fst (send hwm pfd_cmd s) = Inr res \<and> fst sw = Inl e"
    then have p: "send hwm pfd_cmd s = (Inr res, s1)"
      by (simp add: s1_def prod_eq_iff)
    from a obtain s3 where sw3: "update_mode_switch Z H FLASH_SIZE get_flash_info merge_images
        hwm al3d img callback mode s1 = (Inl e, s3)" and s3: "snd sw = s3"
      unfolding sw_def by (metis prod.collapse)
    show "r = (Inl e, snd sw)"
      by (simp add: unfold p sw3 s3)
    then show "resets (trace (snd r)) = resets (trace s)" by (simp add: r2)
  next
    assume a: "fst (send hwm pfd_cmd s) = Inr res \<and> fst sw = Inr ()"
    then have p: "send hwm pfd_cmd s = (Inr res, s1)"
      by (simp add: s1_def prod_eq_iff)
    from a obtain s3 where sw3: "update_mode_switch Z H FLASH_SIZE get_flash_info merge_images
        hwm al3d img callback mode s1 = (Inr (), s3)" and s3: "snd sw = s3"
      unfolding sw_def by (metis prod.collapse)
    have rr: "r = (case send hwm (command HWRST) (on_update_progress callback (Fin 1) s3) of
                  (Inl e, s4) \<Rightarrow> (Inl e, s4)
                | (Inr res', s4) \<Rightarrow> (Inr (), s4))"
      by (simp add: unfold p sw3)
    show tr: "trace (snd r) = trace (snd sw) @ (if callback then [Progress (Fin 1)] else [])
                              @ [Send (command HWRST)]"
      by (simp add: rr s3 send_def on_update_progress_def emit_def split: option.splits)
    have "resets (trace (snd r)) = resets (trace (snd sw)) + 1"
      unfolding tr by (simp add: resets_def)
    then show "resets (trace (snd r)) = resets (trace s) + 1"
      by (simp add: r2)
    show "fst r = (if hwm (sent (snd sw)) (command HWRST) = None then Inl Transport_error
                        else Inr ())"
      by (simp add: rr s3 send_def on_update_progress_def emit_def split: option.splits)
  qed
qed

theorem update_flash_reset_only_after_success_witness:
  "update_flash 4096 1000 4096 sample_get_flash_info keep_image dead_device idle_al3d (replicate 4096 0) True
      RS2_UNSIGNED_UPDATE_MODE_FULL run0
     = (Inl Transport_error, snd (send dead_device pfd_cmd run0))
   \<and> fst (update_flash 4096 1000 4096 sample_get_flash_info keep_image fail_at_1 idle_al3d (replicate 4096 0) True
      RS2_UNSIGNED_UPDATE_MODE_FULL run0) = Inl Transport_error
   \<and> resets (trace (snd (update_flash 4096 1000 4096 sample_get_flash_info keep_image fail_at_1
      idle_al3d (replicate 4096 0) True RS2_UNSIGNED_UPDATE_MODE_FULL run0))) = resets (trace run0)
   \<and> fst (update_flash 4096 1000 4096 sample_get_flash_info keep_image ok_device idle_al3d (replicate 4096 0) True
      RS2_UNSIGNED_UPDATE_MODE_FULL run0) = Inr ()
   \<and> resets (trace (snd (update_flash 4096 1000 4096 sample_get_flash_info keep_image ok_device
      idle_al3d (replicate 4096 0) True RS2_UNSIGNED_UPDATE_MODE_FULL run0))) = resets (trace run0) + 1"
proof -
  let ?upd = "\<lambda>hwm. update_flash 4096 1000 4096 sample_get_flash_info keep_image hwm idle_al3d
      (replicate 4096 0) True RS2_UNSIGNED_UPDATE_MODE_FULL run0"
  let ?sw = "\<lambda>hwm. update_mode_switch 4096 1000 4096 sample_get_flash_info keep_image hwm
      idle_al3d (replicate 4096 0) True RS2_UNSIGNED_UPDATE_MODE_FULL (snd (send hwm pfd_cmd run0))"
  have a: "fst (send dead_device pfd_cmd run0) = Inl Transport_error"
    by (simp add: send_def dead_device_def)
  have b: "fst (send fail_at_1 pfd_cmd run0) = Inr [] \<and> fst (?sw fail_at_1) = Inl Transport_error"
    by (simp add: update_mode_switch_def update_flash_section_def
        sector_loop.simps send_def pfd_cmd_def fail_at_1_def run0_def command_def int_cast_def)
  have c: "fst (send ok_device pfd_cmd run0) = Inr [] \<and> fst (?sw ok_device) = Inr ()"
    by (simp add: update_mode_switch_def update_flash_section_def
        sector_loop.simps write_packets.simps send_def pfd_cmd_def ok_device_def run0_def
        command_def int_cast_def on_update_progress_def emit_def)
  note t = update_flash_reset_only_after_success [where s = run0 and e = Transport_error
            and Z = 4096 and H = 1000
            and FLASH_SIZE = 4096 and get_flash_info = sample_get_flash_info
            and merge_images = keep_image and al3d = idle_al3d and img = "replicate 4096 0" and callback = True
            and mode = RS2_UNSIGNED_UPDATE_MODE_FULL and res = "[]"]
  from t [where hwm = dead_device] a
  have w1: "?upd dead_device = (Inl Transport_error, snd (send dead_device pfd_cmd run0))"
    by blast
  from t [where hwm = fail_at_1] b
  have w2: "?upd fail_at_1 = (Inl Transport_error, snd (?sw fail_at_1))
      \<and> resets (trace (snd (?upd fail_at_1))) = resets (trace run0)"
    by blast
  from t [where hwm = ok_device] c
  have w3: "resets (trace (snd (?upd ok_device))) = resets (trace run0) + 1
      \<and> fst (?upd ok_device) =
          (if ok_device (sent (snd (?sw ok_device))) (command HWRST) = None
           then Inl Transport_error else Inr ())"
    by blast
  have "fst (?upd fail_at_1) = Inl Transport_error"
    by (simp add: w2 [THEN conjunct1])
  moreover have "fst (?upd ok_device) = Inr ()"
    by (simp add: w3 [THEN conjunct2] ok_device_def)
  ultimately show ?thesis
    using w1 w2 w3 by blast
qed

text \<open>
  The update fails at the first erase command and the reset is not sent.
\<close>

theorem update_flash_no_reset_counterexample:
  "update_flash 4096 1000 2097152 sample_get_flash_info keep_image fail_at_1 idle_al3d [] True
      RS2_UNSIGNED_UPDATE_MODE_FULL run0
     = (Inl Transport_error,
        \<lparr>sent = 2, polled = 0,
           trace = [Send pfd_cmd, Send ((command FES)\<lparr>require_response := False, param2 := 1\<rparr>)]\<rparr>)
   \<and> Send (command HWRST) \<noteq> Send pfd_cmd
   \<and> Send (command HWRST) \<noteq> Send ((command FES)\<lparr>require_response := False, param2 := 1\<rparr>)"
  by (simp add: update_flash_def update_mode_switch_def update_flash_section_def
        sector_loop.simps send_def pfd_cmd_def fail_at_1_def run0_def command_def int_cast_def)

subsection \<open>An unrecognized mode\<close>

text \<open>
  C6, as the code has it: with a mode that is none of the four enumerators,
  \<open>update_flash\<close> sends the command \<open>PFD\<close> and nothing else; it fails with "invalid
  update mode value" when the command is answered, and with the transport error
  otherwise. No flash command and no reset are sent.
\<close>

theorem update_flash_unrecognized_mode:
  "update_flash Z H FLASH_SIZE get_flash_info merge_images hwm al3d img callback (Unrecognized m) s
     = (if hwm (sent s) pfd_cmd = None then Inl Transport_error else Inl Invalid_update_mode,
        \<lparr>sent = sent s + 1, polled = polled s, trace = trace s @ [Send pfd_cmd]\<rparr>)"
  by (simp add: update_flash_def update_mode_switch_def send_def pfd_cmd_def split: option.splits)

text \<open>The command \<open>PFD\<close> has reached the device when the mode is rejected.\<close>

theorem update_flash_unrecognized_mode_counterexample:
  "update_flash 4096 1000 2097152 sample_get_flash_info keep_image ok_device idle_al3d [] True
      (Unrecognized 99) run0
     = (Inl Invalid_update_mode, \<lparr>sent = 1, polled = 0, trace = [Send pfd_cmd]\<rparr>)"
  by (simp add: update_flash_def update_mode_switch_def send_def pfd_cmd_def ok_device_def run0_def)

subsection \<open>The completion poll loop\<close>

lemma polls_0: "polls 0 s = s"
  by (simp add: polls_def)

lemma polls_Suc: "polls (Suc k) s = polls k (snd (get_cmd al3d (emit (Sleep_ms 1000) s)))"
  by (simp add: polls_def get_cmd_def emit_def)

lemma polled_polls: "polled (polls k s) = polled s + k"
  by (simp add: polls_def)

lemma get_cmd_fst: "fst (get_cmd al3d (emit e s)) = al3d (polled s)"
  by (simp add: get_cmd_def emit_def)

lemma poll_step:
  "i < max_loop \<Longrightarrow>
   poll_loop al3d i s =
     (if completed (al3d (polled s)) then (Inr (), polls 1 s)
      else if fault (al3d (polled s)) then (Inl Update_failed, polls 1 s)
      else poll_loop al3d (i + 1) (polls 1 s))"
  by (subst poll_loop.simps)
     (simp add: completed_def fault_def polls_def get_cmd_def emit_def)

lemma concat_replicate_comm: "concat (replicate k xs) @ xs = xs @ concat (replicate k xs)"
  by (induction k) simp_all

lemma polls_add: "polls (Suc 0) (polls k s) = polls (Suc k) s"
  by (simp add: polls_def concat_replicate_comm)

lemma polls_add': "polls k (polls (Suc 0) s) = polls (Suc k) s"
  by (simp add: polls_def)

lemma poll_busy:
  "\<forall>j<k. \<not> completed (al3d (polled s + j)) \<and> \<not> fault (al3d (polled s + j)) \<Longrightarrow>
   i + k \<le> max_loop \<Longrightarrow>
   poll_loop al3d i s = poll_loop al3d (i + k) (polls k s)"
proof (induction k arbitrary: i s)
  case 0
  then show ?case by (simp add: polls_0)
next
  case (Suc k)
  from Suc.prems have busy0: "\<not> completed (al3d (polled s))" "\<not> fault (al3d (polled s))"
    by auto
  from Suc.prems have i: "i < max_loop" by simp
  have rest: "\<forall>j<k. \<not> completed (al3d (polled (polls 1 s) + j))
                  \<and> \<not> fault (al3d (polled (polls 1 s) + j))"
  proof (intro allI impI)
    fix j assume "j < k"
    then have "Suc j < Suc k" by simp
    with Suc.prems(1) have "\<not> completed (al3d (polled s + Suc j)) \<and> \<not> fault (al3d (polled s + Suc j))"
      by blast
    then show "\<not> completed (al3d (polled (polls 1 s) + j)) \<and> \<not> fault (al3d (polled (polls 1 s) + j))"
      by (simp add: polled_polls)
  qed
  have "poll_loop al3d i s = poll_loop al3d (i + 1) (polls 1 s)"
    using poll_step [OF i] busy0 by simp
  also have "\<dots> = poll_loop al3d (i + 1 + k) (polls k (polls 1 s))"
    using Suc.IH [OF rest] Suc.prems(2) by simp
  finally show ?case by (simp add: polls_add')
qed

lemma poll_bound: "polled (snd (poll_loop al3d i s)) \<le> polled s + (max_loop - i)"
proof (induction al3d i s rule: poll_loop.induct)
  case (1 al3d i s)
  show ?case
  proof (cases "i < max_loop")
    case False
    then show ?thesis by (subst poll_loop.simps) simp
  next
    case True
    show ?thesis
    proof (cases "completed (al3d (polled s)) \<or> fault (al3d (polled s))")
      case True
      with \<open>i < max_loop\<close> show ?thesis
        by (auto simp: poll_step polled_polls)
    next
      case False
      have g: "get_cmd al3d (emit (Sleep_ms 1000) s) = (al3d (polled s), polls 1 s)"
        by (simp add: get_cmd_def polls_def emit_def)
      from False have "polled (snd (poll_loop al3d (i + 1) (polls 1 s)))
              \<le> polled (polls 1 s) + (max_loop - (i + 1))"
        using "1.IH" [OF True g [symmetric]] by (simp add: completed_def fault_def)
      with True False show ?thesis
        by (simp add: poll_step polled_polls)
    qed
  qed
qed

text \<open>
  C8: the loop runs at most 600 iterations. When the result records of the first \<open>k\<close>
  iterations are neither complete nor a fault and the record of iteration \<open>k\<close>
  (counted from 0, \<open>k < 600\<close>) has its first four bytes zero, the loop ends there,
  normally, after \<open>k + 1\<close> reads; when that record starts with 0x80 or 0x82 instead,
  the loop ends there with the exception "update failed".
\<close>

theorem poll_loop_terminates:
  "max_loop = 600 \<and>
   (k < max_loop \<and> (\<forall>j<k. \<not> completed (al3d (polled s + j)) \<and> \<not> fault (al3d (polled s + j)))
      \<and> completed (al3d (polled s + k))
    \<longrightarrow> poll_loop al3d 0 s = (Inr (), polls (k + 1) s)) \<and>
   (k < max_loop \<and> (\<forall>j<k. \<not> completed (al3d (polled s + j)) \<and> \<not> fault (al3d (polled s + j)))
      \<and> fault (al3d (polled s + k))
    \<longrightarrow> poll_loop al3d 0 s = (Inl Update_failed, polls (k + 1) s)) \<and>
   polled (snd (poll_loop al3d 0 s)) \<le> polled s + 600"
proof (intro conjI impI)
  show "max_loop = 600" by (simp add: max_loop_def)
next
  assume a: "k < max_loop \<and> (\<forall>j<k. \<not> completed (al3d (polled s + j)) \<and> \<not> fault (al3d (polled s + j)))
      \<and> completed (al3d (polled s + k))"
  then have "poll_loop al3d 0 s = poll_loop al3d (0 + k) (polls k s)"
    by (intro poll_busy) auto
  also have "\<dots> = (Inr (), polls 1 (polls k s))"
    using a by (simp add: poll_step polled_polls)
  finally show "poll_loop al3d 0 s = (Inr (), polls (k + 1) s)"
    by (simp add: polls_add)
next
  assume a: "k < max_loop \<and> (\<forall>j<k. \<not> completed (al3d (polled s + j)) \<and> \<not> fault (al3d (polled s + j)))
      \<and> fault (al3d (polled s + k))"
  then have c: "\<not> completed (al3d (polled s + k))"
    by (auto simp: completed_def fault_def)
  from a have "poll_loop al3d 0 s = poll_loop al3d (0 + k) (polls k s)"
    by (intro poll_busy) auto
  also have "\<dots> = (Inl Update_failed, polls 1 (polls k s))"
    using a c by (simp add: poll_step polled_polls)
  finally show "poll_loop al3d 0 s = (Inl Update_failed, polls (k + 1) s)"
    by (simp add: polls_add)
next
  show "polled (snd (poll_loop al3d 0 s)) \<le> polled s + 600"
    using poll_bound [of al3d 0 s] by (simp add: max_loop_def)
qed

theorem poll_loop_terminates_witness:
  "poll_loop (\<lambda>n. if n = 2 then done_result else busy_result) 0 run0 = (Inr (), polls 3 run0) \<and>
   poll_loop (\<lambda>n. if n = 2 then fault_result else busy_result) 0 run0
     = (Inl Update_failed, polls 3 run0)"
  using poll_loop_terminates [of 2 "\<lambda>n. if n = 2 then done_result else busy_result" run0]
        poll_loop_terminates [of 2 "\<lambda>n. if n = 2 then fault_result else busy_result" run0]
  by (simp add: completed_def fault_def done_result_def busy_result_def fault_result_def run0_def)

subsection \<open>The block loop of the alternate engine\<close>

lemma full_block_fits: "j < L div 512 \<Longrightarrow> 512 * (j + 1) \<le> (L::nat)"
proof -
  assume "j < L div 512"
  then have "j + 1 \<le> L div 512" by simp
  then have "512 * (j + 1) \<le> 512 * (L div 512)" by (rule mult_le_mono2)
  also have "\<dots> \<le> L" by (rule times_div_less_eq_dividend)
  finally show ?thesis .
qed

lemma ceil_div_512: "((L::nat) + 511) div 512 = L div 512 + (if 0 < L mod 512 then 1 else 0)"
proof -
  have r: "L mod 512 < 512" by simp
  have "L + 511 = (L mod 512 + 511) + 512 * (L div 512)" by simp
  then have "(L + 511) div 512 = L div 512 + (L mod 512 + 511) div 512"
    by (metis div_mult_self2 zero_neq_numeral)
  moreover have "(L mod 512 + 511) div 512 = (if 0 < L mod 512 then 1 else 0)"
  proof (cases "0 < L mod 512")
    case True
    with r have "(L mod 512 + 511) div 512 = 1"
      by (intro div_nat_eqI) simp_all
    with True show ?thesis by simp
  next
    case False
    then show ?thesis by simp
  qed
  ultimately show ?thesis by simp
qed

lemma block_loop_trace:
  "j \<le> length img div 512 \<Longrightarrow>
   block_loop img callback blocks_count (length img - 512 * j) (512 * j) (word_of_nat j) s =
     \<lparr>sent = sent s, polled = polled s,
        trace = trace s
          @ concat (map (full_block_events callback blocks_count img) [j..<length img div 512])
          @ last_block_events img\<rparr>"
proof (induction "length img div 512 - j" arbitrary: j s)
  case 0
  then have j: "j = length img div 512" by simp
  have rem: "length img - 512 * j = length img mod 512"
    unfolding j by (simp add: minus_mult_div_eq_mod)
  show ?case
  proof (cases "0 < length img mod 512")
    case False
    then show ?thesis
      unfolding rem by (subst block_loop.simps) (simp add: j last_block_events_def)
  next
    case True
    have "take (length img mod 512) (drop (512 * j) img) = drop (512 * j) img"
      using rem by simp
    with True show ?thesis
      unfolding rem
      by (subst block_loop.simps)
         (simp add: j last_block_events_def transfer_size_def set_data_512_def emit_def)
  qed
next
  case (Suc n)
  then have lt: "j < length img div 512" by simp
  then have "512 * (j + 1) \<le> length img"
    by (rule full_block_fits)
  then have big: "\<not> length img - 512 * j < transfer_size" "0 < length img - 512 * j"
    by (simp_all add: transfer_size_def)
  have up: "[j..<length img div 512] = j # [j + 1..<length img div 512]"
    using lt by (simp add: upt_conv_Cons)
  from Suc have n: "n = length img div 512 - (j + 1)" and le: "j + 1 \<le> length img div 512"
    by simp_all
  let ?s' = "on_update_progress callback
                (fdiv (of_nat (unat (word_of_nat j + 1 :: 16 word))) (of_nat (unat blocks_count)))
                (set_data_512 (take transfer_size (drop (512 * j) img)) s)"
  have s': "sent ?s' = sent s" "polled ?s' = polled s"
     "trace ?s' = trace s @ full_block_events callback blocks_count img j"
    by (simp_all add: on_update_progress_def set_data_512_def emit_def full_block_events_def
          transfer_size_def add.commute)
  have e: "length img - 512 * j - transfer_size = length img - 512 * (j + 1)"
    "512 * j + transfer_size = 512 * (j + 1)"
    "(word_of_nat j + 1 :: 16 word) = word_of_nat (j + 1)"
    by (simp_all add: transfer_size_def)
  have "block_loop img callback blocks_count (length img - 512 * j) (512 * j) (word_of_nat j) s
      = block_loop img callback blocks_count (length img - 512 * j - transfer_size)
          (512 * j + transfer_size) (word_of_nat j + 1) ?s'"
    using big by (subst block_loop.simps) simp
  also have "\<dots> = block_loop img callback blocks_count (length img - 512 * (j + 1))
          (512 * (j + 1)) (word_of_nat (j + 1)) ?s'"
    by (simp only: e)
  also note Suc.hyps(1) [OF n le, of ?s']
  finally show ?case
    unfolding s' up by simp
qed

lemma concat_blocks: "n \<le> length img div 512 \<Longrightarrow>
   concat (map (\<lambda>k. take 512 (drop (512 * k) img)) [0..<n]) = take (512 * n) img"
proof (induction n)
  case 0
  then show ?case by simp
next
  case (Suc n)
  then have "concat (map (\<lambda>k. take 512 (drop (512 * k) img)) [0..<Suc n])
      = take (512 * n) img @ take 512 (drop (512 * n) img)"
    by simp
  also have "\<dots> = take (512 * n + 512) img"
    by (simp add: take_add)
  finally show ?case by (simp add: add.commute)
qed

lemma padded_blocks_length: "length (padded_blocks img) = (length img + 511) div 512"
  by (simp add: padded_blocks_def ceil_div_512)

lemma padded_blocks_concat:
  "concat (padded_blocks img) = img @ replicate ((512 - length img mod 512) mod 512) 0"
proof (cases "0 < length img mod 512")
  case True
  then have "(512 - length img mod 512) mod 512 = 512 - length img mod 512"
    by simp
  moreover have "take (512 * (length img div 512)) img @ drop (512 * (length img div 512)) img = img"
    by simp
  ultimately show ?thesis
    using True by (simp add: padded_blocks_def concat_blocks)
next
  case False
  then have "512 * (length img div 512) = length img"
    by (simp add: mod_eq_0_iff_dvd)
  with False show ?thesis
    by (simp add: padded_blocks_def concat_blocks)
qed

lemma padded_blocks_sizes:
  "map length (padded_blocks img) = replicate ((length img + 511) div 512) 512"
proof -
  have full: "length (take 512 (drop (512 * k) img)) = 512" if "k < length img div 512" for k
  proof -
    from that have "512 * (k + 1) \<le> length img"
      by (rule full_block_fits)
    then show ?thesis by simp
  qed
  have "map length (map (\<lambda>k. take 512 (drop (512 * k) img)) [0..<length img div 512])
      = replicate (length img div 512) 512"
    by (rule replicate_eqI) (auto simp: full)
  moreover have "length (drop (512 * (length img div 512)) img
          @ replicate (512 - length img mod 512) (0 :: byte)) = 512"
    by (simp add: minus_mult_div_eq_mod)
  moreover have "(length img + 511) div 512
      = length img div 512 + (if 0 < length img mod 512 then 1 else 0)"
    by (rule ceil_div_512)
  ultimately show ?thesis
    by (simp add: padded_blocks_def replicate_append_same)
qed

lemma blocks_of_block_events: "blocks_of (block_events callback blocks_count img) = padded_blocks img"
proof -
  have "blocks_of (concat (map (full_block_events callback blocks_count img) ks))
      = map (\<lambda>k. take 512 (drop (512 * k) img)) ks" for ks
    by (induction ks) (simp_all add: blocks_of_def full_block_events_def)
  then show ?thesis
    by (simp add: block_events_def blocks_of_append padded_blocks_def last_block_events_def)
       (simp add: blocks_of_def)
qed

lemma progress_of_block_events:
  "progress_of (block_events callback blocks_count img) =
     (if callback
      then map (\<lambda>k. fdiv (of_nat (Suc k mod 65536)) (of_nat (unat blocks_count)))
             [0..<length img div 512]
      else [])"
proof -
  have w: "unat (word_of_nat (k + 1) :: 16 word) = Suc k mod 65536" for k
    by (simp only: unat_of_nat) simp
  have one: "full_block_events callback blocks_count img k =
     Set_data_512 (take 512 (drop (512 * k) img))
       # (if callback
          then [Progress (fdiv (of_nat (Suc k mod 65536)) (of_nat (unat blocks_count)))]
          else [])" for k
    unfolding full_block_events_def w ..
  have "progress_of (concat (map (full_block_events callback blocks_count img) ks))
      = (if callback
         then map (\<lambda>k. fdiv (of_nat (Suc k mod 65536)) (of_nat (unat blocks_count))) ks
         else [])" for ks
    by (induction ks) (simp_all add: progress_of_def one)
  then show ?thesis
    by (simp add: block_events_def progress_of_append last_block_events_def)
       (simp add: progress_of_def)
qed

lemma blocks_of_poll_loop: "blocks_of (trace (snd (poll_loop al3d i s))) = blocks_of (trace s)"
proof (induction al3d i s rule: poll_loop.induct)
  case (1 al3d i s)
  obtain result s' where g: "get_cmd al3d (emit (Sleep_ms 1000) s) = (result, s')"
    by (cases "get_cmd al3d (emit (Sleep_ms 1000) s)")
  then have tr: "blocks_of (trace s') = blocks_of (trace s)"
    by (auto simp: get_cmd_def emit_def blocks_of_def)
  show ?case
  proof (cases "i < max_loop")
    case False
    then show ?thesis by (subst poll_loop.simps) simp
  next
    case True
    show ?thesis
    proof (cases "p1 result 0 = 0 \<and> p1 result 1 = 0 \<and> p1 result 2 = 0 \<and> p1 result 3 = 0")
      case True
      with \<open>i < max_loop\<close> g tr show ?thesis by (subst poll_loop.simps) simp
    next
      case False
      note nz = this
      show ?thesis
      proof (cases "p1 result 0 = 0x80 \<or> p1 result 0 = 0x82")
        case True
        with \<open>i < max_loop\<close> nz g tr show ?thesis by (subst poll_loop.simps) auto
      next
        case False
        with \<open>i < max_loop\<close> nz g tr "1.IH" [OF \<open>i < max_loop\<close> g [symmetric] nz False]
        show ?thesis by (subst poll_loop.simps) auto
      qed
    qed
  qed
qed

lemma poll_loop_polls:
  "snd (poll_loop al3d i s) = polls (polled (snd (poll_loop al3d i s)) - polled s) s"
proof (induction al3d i s rule: poll_loop.induct)
  case (1 al3d i s)
  show ?case
  proof (cases "i < max_loop")
    case False
    then have "poll_loop al3d i s = (Inr (), s)"
      by (subst poll_loop.simps) simp
    then show ?thesis by (simp add: polls_0)
  next
    case True
    show ?thesis
    proof (cases "completed (al3d (polled s)) \<or> fault (al3d (polled s))")
      case True
      with \<open>i < max_loop\<close> have "snd (poll_loop al3d i s) = polls 1 s"
        by (auto simp: poll_step)
      then show ?thesis by (simp add: polled_polls)
    next
      case False
      have g: "get_cmd al3d (emit (Sleep_ms 1000) s) = (al3d (polled s), polls 1 s)"
        by (simp add: get_cmd_def polls_def emit_def)
      let ?r = "poll_loop al3d (i + 1) (polls 1 s)"
      from False have IH: "snd ?r = polls (polled (snd ?r) - polled (polls 1 s)) (polls 1 s)"
        using "1.IH" [OF True g [symmetric]] by (simp add: completed_def fault_def)
      let ?n = "polled (snd ?r) - polled (polls 1 s)"
      have eq: "snd ?r = polls (Suc ?n) s"
        using IH by (simp add: polls_add')
      have "polled (snd ?r) = polled (polls (Suc ?n) s)"
        by (rule arg_cong [OF eq])
      then have "polled (snd ?r) = polled s + Suc ?n"
        by (simp only: polled_polls)
      then have n: "polled (snd ?r) - polled s = Suc ?n"
        by simp
      have "poll_loop al3d i s = ?r"
        using True False by (simp add: poll_step)
      then show ?thesis
        using eq n by simp
    qed
  qed
qed

lemma progress_of_al3d_simps:
  "progress_of [] = []"
  "progress_of (Progress p # tr) = p # progress_of tr"
  "progress_of (Set_cmd a b # tr) = progress_of tr"
  "progress_of (Get_cmd # tr) = progress_of tr"
  "progress_of (Sleep_ms n # tr) = progress_of tr"
  "progress_of (concat (replicate k [Sleep_ms 1000, Get_cmd])) = []"
proof -
  show "progress_of [] = []"
    "progress_of (Progress p # tr) = p # progress_of tr"
    "progress_of (Set_cmd a b # tr) = progress_of tr"
    "progress_of (Get_cmd # tr) = progress_of tr"
    "progress_of (Sleep_ms n # tr) = progress_of tr"
    by (simp_all add: progress_of_def)
  show "progress_of (concat (replicate k [Sleep_ms 1000, Get_cmd])) = []"
    by (induction k) (simp_all add: progress_of_def)
qed

lemma unat_blocks_count:
  "(of_nat (unat (word_of_nat n :: 16 word)) :: rat) = of_nat (n mod 65536)"
proof -
  have "unat (word_of_nat n :: 16 word) = n mod 65536"
    by (simp only: unat_of_nat) simp
  then show ?thesis by (simp only:)
qed

text \<open>
  C7, as the code has it: for an image of \<open>L\<close> bytes the engine sends
  \<open>(L + 511) div 512\<close> blocks, the ceiling of \<open>L / 512\<close>; every block has 512 bytes
  and their concatenation is the image followed by zeros. The whole trace of
  \<open>al3d_fw_update_start\<close> is the init command, the status read, the events of the
  blocks, the start command, the polls and, when the poll loop ends normally, the two
  closing calls of the callback. After the \<open>k\<close>-th full block (counted from 1) the
  callback, when there is one, receives \<open>k\<close> over the number of full blocks
  \<open>L div 512\<close>, both reduced modulo 65536; after the padded last block the callback
  is not called before the start command.
\<close>

theorem al3d_blocks_sent:
  fixes al3d :: al3d_fw_update and img :: "byte list" and callback :: bool and s :: run
    and blocks_count :: "16 word"
  defines "R \<equiv> al3d_fw_update_start al3d img callback AL3D_UNSIGNED_UPDATE_MODE_FULL s"
  defines "p2 \<equiv> (word_of_nat (if 0 < length img mod 512 then length img div 512 * 512 + 512
                                else length img div 512 * 512) :: 32 word)"
  defines "q \<equiv> (of_nat ((length img div 512) mod 65536) :: rat)"
  shows "blocks_of (trace (snd (al3d_fw_update_start al3d img callback AL3D_UNSIGNED_UPDATE_MODE_FULL s)))
     = blocks_of (trace s) @ padded_blocks img
   \<and> length (padded_blocks img) = (length img + 511) div 512
   \<and> (length img + 511) div 512 = length img div 512 + (if 0 < length img mod 512 then 1 else 0)
   \<and> map length (padded_blocks img) = replicate ((length img + 511) div 512) 512
   \<and> concat (padded_blocks img) = img @ replicate ((512 - length img mod 512) mod 512) 0
   \<and> trace (block_loop img callback (word_of_nat (length img div 512)) (length img) 0 0 s)
       = trace s @ block_events callback (word_of_nat (length img div 512)) img
   \<and> progress_of (block_events callback blocks_count img) =
       (if callback
        then map (\<lambda>k. fdiv (of_nat (Suc k mod 65536)) (of_nat (unat blocks_count)))
               [0..<length img div 512]
        else [])
   \<and> trace (snd R) =
       trace s @ [Set_cmd 0x00030001 p2, Get_cmd]
         @ block_events callback (word_of_nat (length img div 512)) img
         @ [Set_cmd 0x00030101 p2]
         @ concat (replicate (polled (snd R) - polled s - 1) [Sleep_ms 1000, Get_cmd])
         @ (if fst R = Inr () \<and> callback then [Progress (fdiv q q), Progress (Fin 1)] else [])
   \<and> progress_of (trace (snd R)) =
       progress_of (trace s)
         @ (if callback
            then map (\<lambda>k. fdiv (of_nat (Suc k mod 65536)) q) [0..<length img div 512]
                   @ (if fst R = Inr () then [fdiv q q, Fin 1] else [])
            else [])"
proof -
  have bl: "block_loop img callback blocks_count (length img) 0 0 s =
     \<lparr>sent = sent s, polled = polled s,
        trace = trace s @ block_events callback blocks_count img\<rparr>" for blocks_count s
    using block_loop_trace [of 0 img callback blocks_count s] by (simp add: block_events_def)
  let ?bc = "word_of_nat (length img div 512) :: 16 word"
  let ?p2 = "word_of_nat (if 0 < length img mod 512 then length img div 512 * 512 + 512
                          else length img div 512 * 512) :: 32 word"
  let ?s2 = "snd (get_cmd al3d (set_cmd 0x00030001 ?p2 s))"
  let ?s4 = "set_cmd 0x00030101 ?p2 (block_loop img callback ?bc (length img) 0 0 ?s2)"
  have start: "al3d_fw_update_start al3d img callback AL3D_UNSIGNED_UPDATE_MODE_FULL s =
      (case poll_loop al3d 0 ?s4 of
         (Inl e, s5) \<Rightarrow> (Inl e, s5)
       | (Inr u, s5) \<Rightarrow>
           (Inr (),
            on_update_progress callback (Fin 1)
              (on_update_progress callback (fdiv (of_nat (unat ?bc)) (of_nat (unat ?bc))) s5)))"
    unfolding al3d_fw_update_start_def Let_def transfer_size_def
    by (simp only: update_mode.case)
  have s2: "blocks_of (trace ?s2) = blocks_of (trace s)"
    by (simp add: set_cmd_def get_cmd_def emit_def blocks_of_append blocks_of_simps)
  have s4: "blocks_of (trace ?s4) = blocks_of (trace s) @ padded_blocks img"
    unfolding set_cmd_def [of "0x00030101"] bl
    by (simp add: emit_def blocks_of_append blocks_of_block_events blocks_of_simps s2)
  obtain r s5 where p: "poll_loop al3d 0 ?s4 = (r, s5)"
    by (cases "poll_loop al3d 0 ?s4")
  have s5: "blocks_of (trace s5) = blocks_of (trace s) @ padded_blocks img"
    using blocks_of_poll_loop [of al3d 0 ?s4] s4 unfolding p by simp
  have quiet: "blocks_of (trace (on_update_progress callback q (on_update_progress callback q' s5)))
        = blocks_of (trace s5)" for q q'
    by (simp add: on_update_progress_def emit_def blocks_of_append blocks_of_simps)
  have c1: "blocks_of (trace (snd (al3d_fw_update_start al3d img callback
            AL3D_UNSIGNED_UPDATE_MODE_FULL s))) = blocks_of (trace s) @ padded_blocks img"
    unfolding start p by (cases r) (simp_all add: quiet s5)
  have c6: "trace (block_loop img callback ?bc (length img) 0 0 s)
       = trace s @ block_events callback ?bc img"
    by (simp add: bl)
  have s4_polled: "polled ?s4 = polled s + 1"
    and s4_trace: "trace ?s4 = trace s @ [Set_cmd 0x00030001 p2, Get_cmd]
         @ block_events callback ?bc img @ [Set_cmd 0x00030101 p2]"
    unfolding p2_def set_cmd_def [of "0x00030101"] bl
    by (simp_all add: set_cmd_def get_cmd_def emit_def split del: if_split)
  have trace_polls: "trace (polls k t) = trace t @ concat (replicate k [Sleep_ms 1000, Get_cmd])"
    for k t
    by (simp add: polls_def)
  have "snd (r, s5) = polls (polled (snd (r, s5)) - polled ?s4) ?s4"
    using poll_loop_polls [of al3d 0 ?s4] by (simp only: p)
  then have "s5 = polls (polled s5 - polled ?s4) ?s4"
    by (simp only: snd_conv)
  then have "trace s5 = trace (polls (polled s5 - polled ?s4) ?s4)"
    by (rule arg_cong)
  then have "trace s5 = trace ?s4
        @ concat (replicate (polled s5 - (polled s + 1)) [Sleep_ms 1000, Get_cmd])"
    by (simp only: trace_polls s4_polled)
  then have s5_trace: "trace s5 = trace s @ [Set_cmd 0x00030001 p2, Get_cmd]
         @ block_events callback ?bc img @ [Set_cmd 0x00030101 p2]
         @ concat (replicate (polled s5 - polled s - 1) [Sleep_ms 1000, Get_cmd])"
    by (simp only: s4_trace diff_diff_left append_assoc)
  have qq: "(of_nat (unat ?bc) :: rat) = q"
    unfolding q_def by (rule unat_blocks_count)
  have R: "R = (case r of
         Inl e \<Rightarrow> (Inl e, s5)
       | Inr u \<Rightarrow>
           (Inr (),
            on_update_progress callback (Fin 1) (on_update_progress callback (fdiv q q) s5)))"
    unfolding R_def start p qq by (cases r) simp_all
  have c8: "trace (snd R) =
       trace s @ [Set_cmd 0x00030001 p2, Get_cmd]
         @ block_events callback ?bc img
         @ [Set_cmd 0x00030101 p2]
         @ concat (replicate (polled (snd R) - polled s - 1) [Sleep_ms 1000, Get_cmd])
         @ (if fst R = Inr () \<and> callback then [Progress (fdiv q q), Progress (Fin 1)] else [])"
    unfolding R
    by (cases r) (simp_all add: on_update_progress_def emit_def s5_trace)
  have pb: "progress_of (block_events callback ?bc img) =
       (if callback
        then map (\<lambda>k. fdiv (of_nat (Suc k mod 65536)) q) [0..<length img div 512]
        else [])"
    unfolding progress_of_block_events qq ..
  have c9: "progress_of (trace (snd R)) =
       progress_of (trace s)
         @ (if callback
            then map (\<lambda>k. fdiv (of_nat (Suc k mod 65536)) q) [0..<length img div 512]
                   @ (if fst R = Inr () then [fdiv q q, Fin 1] else [])
            else [])"
    unfolding c8
    by (simp add: progress_of_append progress_of_al3d_simps pb)
  from c1 c6 c8 c9 show ?thesis
    using padded_blocks_length [of img] ceil_div_512 [of "length img"] padded_blocks_sizes [of img]
      padded_blocks_concat [of img] progress_of_block_events [of callback blocks_count img]
    by (intro conjI)
qed

text \<open>
  An image of 513 bytes: two blocks are sent; after the first the callback receives
  1, not 1/2, and after the second it is not called before the start command.
\<close>

theorem al3d_progress_counterexample:
  "trace (snd (al3d_fw_update_start idle_al3d (replicate 513 1) True
       AL3D_UNSIGNED_UPDATE_MODE_FULL run0)) =
     [Set_cmd 0x00030001 1024, Get_cmd,
      Set_data_512 (replicate 512 1), Progress (Fin 1),
      Set_data_512 (1 # replicate 511 0),
      Set_cmd 0x00030101 1024, Sleep_ms 1000, Get_cmd, Progress (Fin 1), Progress (Fin 1)]"
  by (simp add: al3d_fw_update_start_def Let_def transfer_size_def max_loop_def
        block_loop.simps poll_loop.simps set_cmd_def get_cmd_def set_data_512_def emit_def
        on_update_progress_def idle_al3d_def done_result_def run0_def fdiv_def
        replicate_append_same)

subsection \<open>The compatibility check\<close>

text \<open>
  C10: for every image byte sequence (and every device), \<open>check_fw_compatibility\<close>
  returns true: nothing is read from the image and no image is rejected.
\<close>

theorem check_fw_compatibility_always_true:
  "check_fw_compatibility pid img"
  by (simp add: check_fw_compatibility_def)

end
